theory Spec2Isabelle
  imports Complex_Main
begin

section \<open>The chat session of app.py\<close>

text \<open>
  app.py is a Streamlit script: the framework executes the whole file once for every
  user event, with the values of the widgets as inputs and \<open>st.session_state\<close> as the
  only state that survives from one execution to the next. The model below is one
  function per numbered block of the script, threaded through an explicit session
  state, and the remote completion call is an input: what \<open>create\<close> and the iteration
  over its stream do (raise, or deliver chunks) is given with the event.

  The framework can end an execution early: at a call of \<open>st\<close> (or of an element such as
  the placeholder) it raises a control exception to stop or restart the script, the way
  \<open>st.stop()\<close> and \<open>st.rerun()\<close> do. That exception derives from \<open>BaseException\<close>, not
  from \<open>Exception\<close>, so the handler of block 5 does not catch it. Where this happens, if
  it does, is an input of the execution too.

  Python's \<open>str\<close> is modelled by \<open>string\<close>. The string literals of the source that are
  not ASCII (the three instruction texts, the text of the missing-key error and the
  two fixed parts of the error line) cannot be written as HOL string literals; they are
  the fields of the record \<open>literals\<close>, and every definition that uses one takes the
  record as its first argument. All ASCII literals of the source are written out.
\<close>

subsection \<open>Data\<close>

text \<open>A message is the dict \<open>{"role": ..., "content": ...}\<close> of the source.\<close>

record message =
  role :: string
  content :: string

text \<open>The keys of \<open>character_prompts\<close>, in the order of the source.\<close>

datatype persona = Friendly_Mentor | Nineties_Mood | Calm_Librarian

record literals =
  character_prompts :: "persona \<Rightarrow> string"
  key_missing_text :: string
  error_label :: string
  error_dash :: string

text \<open>
  \<open>st.session_state\<close>: a key that is not in the mapping is \<open>None\<close>, so that
  \<open>"messages" not in st.session_state\<close> is \<open>messages s = None\<close>.
\<close>

record session =
  messages :: "message list option"
  character :: "persona option"

text \<open>An exception, as the handler reads it: \<open>type(e).__name__\<close> and \<open>str(e)\<close>.\<close>

record exn =
  ename :: string
  etext :: string

text \<open>
  A streamed chunk is the list \<open>chunk.choices\<close>, each choice reduced to its \<open>delta\<close>,
  which may be \<open>None\<close>; the \<open>content\<close> of a delta may be absent or \<open>None\<close> (both read as
  \<open>None\<close> by \<open>getattr(delta, "content", None)\<close>) or a string. Iterating over the stream
  delivers a chunk or raises.
\<close>

datatype delta = Delta (delta_content: "string option")

datatype item = Chunk "delta option list" | Stream_Raises exn

datatype response = Create_Raises exn | Stream "item list"

text \<open>The sidebar widgets whose values are passed to the call unchanged.\<close>

record settings =
  model :: string
  temperature :: real
  max_tokens :: int

text \<open>The keyword arguments of \<open>client.chat.completions.create\<close> (\<open>stream\<close> is always true).\<close>

record request =
  req_settings :: settings
  req_messages :: "message list"

text \<open>\<open>placeholder = st.empty()\<close>: the element shows nothing, a markdown text or an error.\<close>

datatype placeholder = Nothing_Shown | Markdown string | Error_Box string

text \<open>What one execution of the script receives.\<close>

record inputs =
  getenv_key :: "string option"
  widget_settings :: settings
  selected_character :: persona
  reset_clicked :: bool
  prompt :: "string option"
  remote :: response

text \<open>What one execution of the script shows.\<close>

record outputs =
  rendered :: "message list"
  sent :: "request option"
  reply_slot :: "placeholder option"
  total_msgs :: nat
  user_msgs :: nat
  export :: "string option"

text \<open>
  The calls at which the framework may interrupt an execution, grouped by what the script
  has done to the session state when it reaches them: the calls of blocks 0 to 2 (before
  block 3), the calls of block 4 and \<open>st.chat_input\<close> (after block 3), the calls of lines
  96 to 100 (after the user message is appended, before the \<open>try\<close> statement),
  \<open>placeholder.markdown\<close> in the iteration of the loop with the given index (from 0),
  \<open>placeholder.error\<close> in the handler, and the calls of blocks 6 and 7.
\<close>

datatype point = In_Sidebar | In_History | In_Echo | In_Stream nat | In_Error_Box | In_Dashboard

text \<open>
  What leaves a statement: an exception that \<open>except Exception\<close> catches, or the control
  exception of the framework, which it does not catch.
\<close>

datatype raised = Error exn | Control

text \<open>
  An execution ends at \<open>st.stop()\<close> with the error it has shown, at \<open>st.rerun()\<close> with the
  session state it leaves, at the call where the framework interrupts it, with the
  session state as it is then, or at the end of the file.
\<close>

datatype outcome = Stopped string | Rerun session | Interrupted session | Finished session outputs

subsection \<open>Block 5: the completion call and the streaming loop\<close>

definition N :: nat where
  "N = 20"

text \<open>\<open>st.session_state.messages[-N:]\<close>: the last \<open>N\<close> entries, all of them when there are fewer.\<close>

definition window :: "message list \<Rightarrow> message list" where
  "window ms = drop (length ms - N) ms"

definition index_error :: exn where
  "index_error = \<lparr>ename = ''IndexError'', etext = ''list index out of range''\<rparr>"

text \<open>
  The body of \<open>for chunk in stream\<close>; \<open>chunk.choices[0]\<close> raises on an empty list. The first
  argument says whether the framework interrupts the script at \<open>placeholder.markdown\<close> in
  this iteration: then \<open>full_text\<close> has been extended and the placeholder has not changed.
\<close>

fun handle_chunk ::
  "bool \<Rightarrow> delta option list \<Rightarrow> string \<times> placeholder \<Rightarrow> (string \<times> placeholder) \<times> raised option" where
  "handle_chunk halt [] (full_text, ph) = ((full_text, ph), Some (Error index_error))"
| "handle_chunk halt (d # _) (full_text, ph) =
     (case d of
        None \<Rightarrow> ((full_text, ph), None)
      | Some dl \<Rightarrow>
          (case delta_content dl of
             None \<Rightarrow> ((full_text, ph), None)
           | Some c \<Rightarrow>
               if c = [] then ((full_text, ph), None)
               else if halt then ((full_text @ c, ph), Some Control)
               else ((full_text @ c, Markdown (full_text @ c)), None)))"

text \<open>
  The loop: it ends when the stream is exhausted, or at the first exception, with what was
  raised. The first argument is the index of the iteration in which the framework
  interrupts the script, if any, counted from the current iteration.
\<close>

fun stream_loop ::
  "nat option \<Rightarrow> item list \<Rightarrow> string \<times> placeholder \<Rightarrow> (string \<times> placeholder) \<times> raised option" where
  "stream_loop k [] st = (st, None)"
| "stream_loop k (Stream_Raises e # _) st = (st, Some (Error e))"
| "stream_loop k (Chunk cs # rest) st =
     (case handle_chunk (k = Some 0) cs st of
        (st', Some r) \<Rightarrow> (st', Some r)
      | (st', None) \<Rightarrow>
          stream_loop (case k of Some (Suc n) \<Rightarrow> Some n | _ \<Rightarrow> None) rest st')"

text \<open>The loop of an execution that the framework does not interrupt.\<close>

definition consume :: "item list \<Rightarrow> string \<times> placeholder \<Rightarrow> (string \<times> placeholder) \<times> raised option" where
  "consume its st = stream_loop None its st"

text \<open>The text of \<open>placeholder.error\<close> in the handler.\<close>

definition error_line :: "literals \<Rightarrow> exn \<Rightarrow> string" where
  "error_line L e = error_label L @ ename e @ error_dash L @ etext e"

text \<open>
  The body of the \<open>try\<close> statement, from \<open>full_text = ""\<close> on: the value of \<open>full_text\<close> and
  the placeholder when the body is left, and what was raised in it. \<open>attempt\<close> is the body
  in an execution that the framework does not interrupt.
\<close>

definition attempt_at :: "point option \<Rightarrow> response \<Rightarrow> (string \<times> placeholder) \<times> raised option" where
  "attempt_at pt r =
     (case r of
        Create_Raises e \<Rightarrow> (([], Nothing_Shown), Some (Error e))
      | Stream its \<Rightarrow>
          stream_loop (case pt of Some (In_Stream k) \<Rightarrow> Some k | _ \<Rightarrow> None) its
            ([], Nothing_Shown))"

definition attempt :: "response \<Rightarrow> (string \<times> placeholder) \<times> raised option" where
  "attempt r = attempt_at None r"

text \<open>
  The \<open>try\<close> statement with its handler: \<open>full_text\<close> and the placeholder after it, or \<open>None\<close>
  when the control exception leaves the statement, from the loop or from
  \<open>placeholder.error\<close> in the handler.
\<close>

definition guarded :: "literals \<Rightarrow> point option \<Rightarrow> response \<Rightarrow> (string \<times> placeholder) option" where
  "guarded L pt r =
     (case attempt_at pt r of
        ((full_text, ph), None) \<Rightarrow> Some (full_text, ph)
      | ((full_text, ph), Some Control) \<Rightarrow> None
      | ((full_text, ph), Some (Error e)) \<Rightarrow>
          if pt = Some In_Error_Box then None
          else Some (full_text, Error_Box (error_line L e)))"

definition history :: "session \<Rightarrow> message list" where
  "history s = (case messages s of None \<Rightarrow> [] | Some ms \<Rightarrow> ms)"

text \<open>
  From block 3 on both keys are in the session state: \<open>ready\<close> is the session state
  with the two values, and \<open>store\<close> is the session state that holds them.
\<close>

record ready =
  cur_messages :: "message list"
  cur_character :: persona

definition store :: "ready \<Rightarrow> session" where
  "store r = \<lparr>messages = Some (cur_messages r), character = Some (cur_character r)\<rparr>"

definition build_request :: "literals \<Rightarrow> settings \<Rightarrow> persona \<Rightarrow> message list \<Rightarrow> request" where
  "build_request L cfg c ms =
     \<lparr>req_settings = cfg,
      req_messages = \<lparr>role = ''system'', content = character_prompts L c\<rparr> # window ms\<rparr>"

text \<open>
  \<open>if prompt:\<close> with its body. The user message is appended first, the request is built
  from the list that already holds it, and the last \<open>append\<close> comes after the \<open>try\<close>
  statement, outside it: it is reached when the statement is left normally or through
  its handler, and skipped when the framework interrupts the script between the two
  appends. The last component of the result says whether the block was left normally.
\<close>

definition submit ::
  "literals \<Rightarrow> point option \<Rightarrow> inputs \<Rightarrow> ready
     \<Rightarrow> ready \<times> request option \<times> placeholder option \<times> bool" where
  "submit L pt i r =
     (case prompt i of
        None \<Rightarrow> (r, None, None, True)
      | Some p \<Rightarrow>
          if p = [] then (r, None, None, True)
          else
            let ms1 = cur_messages r @ [\<lparr>role = ''user'', content = p\<rparr>];
                req = build_request L (widget_settings i) (cur_character r) ms1
            in if pt = Some In_Echo then (r\<lparr>cur_messages := ms1\<rparr>, None, None, False)
               else
                 (case guarded L pt (remote i) of
                    None \<Rightarrow> (r\<lparr>cur_messages := ms1\<rparr>, Some req, None, False)
                  | Some (full_text, ph) \<Rightarrow>
                      (r\<lparr>cur_messages := ms1 @ [\<lparr>role = ''assistant'', content = full_text\<rparr>]\<rparr>,
                       Some req, Some ph, True)))"

subsection \<open>Blocks 3 and 7: session set-up, persona change, export\<close>

definition prepare :: "persona \<Rightarrow> session \<Rightarrow> ready" where
  "prepare sel s =
     \<lparr>cur_messages = (case messages s of None \<Rightarrow> [] | Some ms \<Rightarrow> ms),
      cur_character = (case character s of None \<Rightarrow> sel | Some c \<Rightarrow> c)\<rparr>"

definition change_character :: "persona \<Rightarrow> ready \<Rightarrow> ready" where
  "change_character sel r =
     (if cur_character r \<noteq> sel then r\<lparr>cur_character := sel, cur_messages := []\<rparr> else r)"

text \<open>The session state as block 4 and block 5 find it.\<close>

definition entering :: "persona \<Rightarrow> session \<Rightarrow> ready" where
  "entering sel s = change_character sel (prepare sel s)"

text \<open>\<open>sep.join(parts)\<close> of Python.\<close>

fun join :: "string \<Rightarrow> string list \<Rightarrow> string" where
  "join sep [] = []"
| "join sep [x] = x"
| "join sep (x # y # ys) = x @ sep @ join sep (y # ys)"

definition export_line :: "message \<Rightarrow> string" where
  "export_line m = ''**'' @ role m @ ''**: '' @ content m"

definition export_data :: "message list \<Rightarrow> string" where
  "export_data ms = join [CHR 0x0A, CHR 0x0A] (map export_line ms)"

text \<open>\<open>if st.session_state.messages:\<close> with the \<open>data\<close> of the download button.\<close>

definition export_button :: "message list \<Rightarrow> string option" where
  "export_button ms = (if ms = [] then None else Some (export_data ms))"

subsection \<open>The script\<close>

text \<open>
  One execution of the file, interrupted at the given point if it reaches it. The session
  state is written as the script goes: an interrupted execution leaves what was written
  until then.
\<close>

definition script :: "literals \<Rightarrow> point option \<Rightarrow> inputs \<Rightarrow> session \<Rightarrow> outcome" where
  "script L pt i s =
     (if pt = Some In_Sidebar then Interrupted s
      else if (case getenv_key i of None \<Rightarrow> True | Some k \<Rightarrow> k = [])
      then Stopped (key_missing_text L)
      else if reset_clicked i then Rerun \<lparr>messages = None, character = None\<rparr>
      else
        let r3 = entering (selected_character i) s;
            shown = cur_messages r3
        in if pt = Some In_History then Interrupted (store r3)
           else
             let (r5, req, slot, done) = submit L pt i r3
             in if \<not> done \<or> pt = Some In_Dashboard then Interrupted (store r5)
                else
                  Finished (store r5)
                    \<lparr>rendered = shown, sent = req, reply_slot = slot,
                     total_msgs = length (cur_messages r5),
                     user_msgs = length (filter (\<lambda>m. role m = ''user'') (cur_messages r5)),
                     export = export_button (cur_messages r5)\<rparr>)"

text \<open>
  One user event. After \<open>st.rerun()\<close> the framework executes the script again on the
  session state left behind; the button and the chat input are triggers, which the
  framework clears before that execution.
\<close>

definition execute :: "literals \<Rightarrow> point option \<Rightarrow> inputs \<Rightarrow> session \<Rightarrow> outcome" where
  "execute L pt i s =
     (case script L pt i s of
        Rerun s' \<Rightarrow> script L pt (i\<lparr>reset_clicked := False, prompt := None\<rparr>) s'
      | r \<Rightarrow> r)"

text \<open>
  The session state that an event leaves; an execution that stops leaves it as it was.
\<close>

definition left_by :: "literals \<Rightarrow> point option \<Rightarrow> inputs \<Rightarrow> session \<Rightarrow> session" where
  "left_by L pt i s =
     (case execute L pt i s of
        Stopped _ \<Rightarrow> s
      | Rerun s' \<Rightarrow> s'
      | Interrupted s' \<Rightarrow> s'
      | Finished s' _ \<Rightarrow> s')"

text \<open>
  An event whose execution the framework does not interrupt: its outcome, the session
  state after it, and what it shows.
\<close>

definition run :: "literals \<Rightarrow> inputs \<Rightarrow> session \<Rightarrow> outcome" where
  "run L i s = execute L None i s"

definition after :: "literals \<Rightarrow> inputs \<Rightarrow> session \<Rightarrow> session" where
  "after L i s = left_by L None i s"

definition shown_by :: "literals \<Rightarrow> inputs \<Rightarrow> session \<Rightarrow> outputs option" where
  "shown_by L i s =
     (case run L i s of
        Finished _ out \<Rightarrow> Some out
      | _ \<Rightarrow> None)"

text \<open>
  A browser session: the events in order, from a session state, each with the point at
  which the framework interrupts its execution, if it does.
\<close>

definition run_all :: "literals \<Rightarrow> (point option \<times> inputs) list \<Rightarrow> session \<Rightarrow> session" where
  "run_all L evs s = foldl (\<lambda>s' (pt, i). left_by L pt i s') s evs"

definition fresh :: session where
  "fresh = \<lparr>messages = None, character = None\<rparr>"

subsection \<open>Notions used to state the properties\<close>

text \<open>
  The condition of block 0 for going on, and a submission: an execution that reaches
  block 5 with a prompt that \<open>if prompt:\<close> accepts. \<open>prompted\<close> is the test of
  \<open>if prompt:\<close> alone.
\<close>

definition key_present :: "inputs \<Rightarrow> bool" where
  "key_present i = (case getenv_key i of None \<Rightarrow> False | Some k \<Rightarrow> k \<noteq> [])"

definition submits :: "inputs \<Rightarrow> string \<Rightarrow> bool" where
  "submits i p = (key_present i \<and> \<not> reset_clicked i \<and> prompt i = Some p \<and> p \<noteq> [])"

definition prompted :: "inputs \<Rightarrow> bool" where
  "prompted i = (case prompt i of None \<Rightarrow> False | Some p \<Rightarrow> p \<noteq> [])"

text \<open>
  The history that block 3 leaves for the rest of the execution: the retained history,
  or the empty list when the selected persona differs from the stored one.
\<close>

definition carried :: "persona \<Rightarrow> session \<Rightarrow> message list" where
  "carried sel s = (if character s = None \<or> character s = Some sel then history s else [])"

text \<open>The two dicts that block 5 appends.\<close>

definition user_msg :: "string \<Rightarrow> message" where
  "user_msg p = \<lparr>role = ''user'', content = p\<rparr>"

definition assistant_msg :: "string \<Rightarrow> message" where
  "assistant_msg t = \<lparr>role = ''assistant'', content = t\<rparr>"

text \<open>
  The call succeeds when the body of the \<open>try\<close> statement is left without an exception.
  \<open>final_slot\<close> is the placeholder after the statement, in an execution that is not
  interrupted: what the loop has rendered, or the error line of the handler.
\<close>

definition succeeds :: "response \<Rightarrow> bool" where
  "succeeds r = (snd (attempt r) = None)"

definition final_slot :: "literals \<Rightarrow> response \<Rightarrow> placeholder" where
  "final_slot L r =
     (case snd (attempt r) of
        Some (Error e) \<Rightarrow> Error_Box (error_line L e)
      | _ \<Rightarrow> snd (fst (attempt r)))"

text \<open>The two invariants of the retained history.\<close>

definition no_system :: "message list \<Rightarrow> bool" where
  "no_system ms = (\<forall>m \<in> set ms. role m \<noteq> ''system'')"


text \<open>
  The text that a chunk contributes to \<open>full_text\<close>: the content of the delta of its first
  choice, when there is one.
\<close>

fun fragment :: "item \<Rightarrow> string" where
  "fragment (Chunk (Some (Delta (Some c)) # _)) = c"
| "fragment _ = []"

text \<open>
  An iteration that the loop completes, and the text that a response has contributed to
  \<open>full_text\<close> when the \<open>try\<close> statement is left: nothing when \<open>create\<close> raised, else the
  fragments of the chunks before the first item that makes the loop raise.
\<close>

fun good :: "item \<Rightarrow> bool" where
  "good (Chunk cs) = (cs \<noteq> [])"
| "good (Stream_Raises e) = False"

definition accumulated :: "response \<Rightarrow> string" where
  "accumulated r =
     (case r of
        Create_Raises e \<Rightarrow> []
      | Stream its \<Rightarrow> concat (map fragment (takeWhile good its)))"

text \<open>The two entries that a submission appends.\<close>

definition exchange :: "inputs \<Rightarrow> message list" where
  "exchange i =
     [user_msg (case prompt i of None \<Rightarrow> [] | Some p \<Rightarrow> p),
      assistant_msg (accumulated (remote i))]"

text \<open>
  Example values: stand-ins for the literals, a session with one earlier turn, one with
  twelve, and the events used below (a submission answered in three chunks, one whose
  stream breaks after the first chunk, one whose \<open>create\<close> raises, a persona change, a
  submission under the new persona, an execution without the key, a second submission and
  an execution without any input).
\<close>

definition demo_literals :: literals where
  "demo_literals =
     \<lparr>character_prompts =
        (\<lambda>c. case c of Friendly_Mentor \<Rightarrow> ''mentor'' | Nineties_Mood \<Rightarrow> ''nineties''
              | Calm_Librarian \<Rightarrow> ''librarian''),
      key_missing_text = ''OPENAI_API_KEY is missing'',
      error_label = ''error: '',
      error_dash = '' - ''\<rparr>"

definition demo_settings :: settings where
  "demo_settings = \<lparr>model = ''gpt-4o-mini'', temperature = 7 / 10, max_tokens = 1024\<rparr>"

definition hello :: inputs where
  "hello =
     \<lparr>getenv_key = Some ''sk-test'', widget_settings = demo_settings,
      selected_character = Friendly_Mentor, reset_clicked = False, prompt = Some ''Hello'',
      remote = Stream [Chunk [Some (Delta (Some ''Hi''))], Chunk [Some (Delta None)],
                       Chunk [Some (Delta (Some '' there''))]]\<rparr>"

definition connection_error :: exn where
  "connection_error = \<lparr>ename = ''APIConnectionError'', etext = ''Connection error.''\<rparr>"

definition broken :: inputs where
  "broken =
     hello\<lparr>prompt := Some ''More'',
           remote := Stream [Chunk [Some (Delta (Some ''Par''))], Stream_Raises connection_error]\<rparr>"

definition one_turn :: session where
  "one_turn =
     \<lparr>messages = Some [user_msg ''Hello'', assistant_msg ''Hi there''],
      character = Some Friendly_Mentor\<rparr>"

definition outage :: inputs where
  "outage = hello\<lparr>remote := Create_Raises connection_error\<rparr>"

definition long_talk :: session where
  "long_talk =
     \<lparr>messages = Some (concat (replicate 12 [user_msg ''q'', assistant_msg ''a''])),
      character = Some Friendly_Mentor\<rparr>"

definition switch :: inputs where
  "switch = hello\<lparr>selected_character := Calm_Librarian, prompt := None\<rparr>"

definition ask :: inputs where
  "ask = hello\<lparr>selected_character := Calm_Librarian, prompt := Some ''Hi''\<rparr>"

definition unconfigured :: inputs where
  "unconfigured = hello\<lparr>getenv_key := None\<rparr>"

text \<open>
  A stream that is delivered whole: every item is a chunk with at least one choice.
  \<open>slot_of\<close> is the placeholder that shows a text, nothing when the text is empty.
\<close>

definition delivered :: "item list \<Rightarrow> bool" where
  "delivered its = (\<forall>it \<in> set its. \<exists>cs. it = Chunk cs \<and> cs \<noteq> [])"

definition slot_of :: "string \<Rightarrow> placeholder" where
  "slot_of t = (if t = [] then Nothing_Shown else Markdown t)"

definition again :: inputs where
  "again = hello\<lparr>prompt := Some ''Again''\<rparr>"

definition download :: inputs where
  "download = hello\<lparr>prompt := None\<rparr>"

definition two_lines :: inputs where
  "two_lines =
     hello\<lparr>remote := Stream [Chunk [Some (Delta (Some (''Hi'' @ [CHR 0x0A] @ ''there'')))]]\<rparr>"

text \<open>
  The lines of a text (\<open>text.split("\\n")\<close> of Python), and a list of lines with an empty
  line between every two of them.
\<close>

fun lines_of :: "string \<Rightarrow> string list" where
  "lines_of [] = [[]]"
| "lines_of (c # cs) =
     (if c = CHR 0x0A then [] # lines_of cs
      else (case lines_of cs of [] \<Rightarrow> [[c]] | l # ls \<Rightarrow> (c # l) # ls))"

fun blank_between :: "string list \<Rightarrow> string list" where
  "blank_between [] = []"
| "blank_between [x] = [x]"
| "blank_between (x # y # ys) = x # [] # blank_between (y # ys)"

definition newline_free :: "message \<Rightarrow> bool" where
  "newline_free m = (CHR 0x0A \<notin> set (role m) \<and> CHR 0x0A \<notin> set (content m))"

text \<open>
  The events of a conversation under the persona \<open>c\<close>: a turn is a submission whose
  execution is not interrupted and whose call succeeds; the other events are executions
  without a reset that do not reach block 5 with a prompt (no prompt, no key, or an
  interruption before block 5), interrupted or not.
\<close>

definition turn_ok :: "persona \<Rightarrow> point option \<times> inputs \<Rightarrow> bool" where
  "turn_ok c ev =
     (fst ev = None \<and> key_present (snd ev) \<and> \<not> reset_clicked (snd ev) \<and> prompted (snd ev)
      \<and> selected_character (snd ev) = c \<and> succeeds (remote (snd ev)))"

definition idle :: "persona \<Rightarrow> point option \<times> inputs \<Rightarrow> bool" where
  "idle c ev =
     (\<not> reset_clicked (snd ev) \<and> selected_character (snd ev) = c
      \<and> (\<not> prompted (snd ev) \<or> \<not> key_present (snd ev)
           \<or> fst ev = Some In_Sidebar \<or> fst ev = Some In_History))"

section \<open>Properties\<close>

subsection \<open>What an event does to the session\<close>

lemma window_length: "length (window ms) = min 20 (length ms)"
  by (simp add: window_def N_def)

lemma window_suffix: "take (length ms - 20) ms @ window ms = ms"
  by (simp add: window_def N_def)

lemma consume_Nil: "consume [] st = (st, None)"
  by (simp add: consume_def)

lemma consume_Raises: "consume (Stream_Raises e # rest) st = (st, Some (Error e))"
  by (simp add: consume_def)

lemma consume_Chunk:
  "consume (Chunk cs # rest) st =
     (case handle_chunk False cs st of
        (st', Some r) \<Rightarrow> (st', Some r)
      | (st', None) \<Rightarrow> consume rest st')"
  by (simp add: consume_def split: prod.splits option.splits)

lemma handle_chunk_no_control: "snd (handle_chunk False cs st) \<noteq> Some Control"
  by (cases "(False, cs, st)" rule: handle_chunk.cases)
     (auto split: option.splits)

lemma consume_no_control: "snd (consume its st) \<noteq> Some Control"
proof (induction its arbitrary: st)
  case Nil
  show ?case by (simp add: consume_Nil)
next
  case (Cons it its)
  show ?case
  proof (cases it)
    case (Stream_Raises e)
    then show ?thesis by (simp add: consume_Raises)
  next
    case (Chunk cs)
    obtain st' r where h: "handle_chunk False cs st = (st', r)"
      by (cases "handle_chunk False cs st") auto
    show ?thesis
    proof (cases r)
      case None
      with h Cons.IH [of st'] show ?thesis by (simp add: Chunk consume_Chunk)
    next
      case (Some x)
      with h handle_chunk_no_control [of cs st] show ?thesis
        by (simp add: Chunk consume_Chunk)
    qed
  qed
qed

lemma attempt_no_control: "snd (attempt r) \<noteq> Some Control"
  using consume_no_control [of _ "([], Nothing_Shown)"]
  by (cases r) (simp_all add: attempt_def attempt_at_def consume_def)

lemma guarded_uninterrupted: "guarded L None r = Some (fst (fst (attempt r)), final_slot L r)"
proof -
  obtain t ph x where a: "attempt r = ((t, ph), x)"
    by (cases "attempt r") auto
  show ?thesis
  proof (cases x)
    case None
    with a show ?thesis by (simp add: guarded_def final_slot_def attempt_def)
  next
    case (Some y)
    with a attempt_no_control [of r] obtain e where "y = Error e"
      by (cases y) auto
    with a Some show ?thesis by (simp add: guarded_def final_slot_def attempt_def)
  qed
qed

lemma script_submits:
  assumes "submits i p"
  shows "script L None i s =
           Finished
             (store \<lparr>cur_messages = cur_messages (entering (selected_character i) s)
                        @ [user_msg p, assistant_msg (fst (fst (attempt (remote i))))],
                     cur_character = selected_character i\<rparr>)
             \<lparr>rendered = cur_messages (entering (selected_character i) s),
              sent = Some (build_request L (widget_settings i) (selected_character i)
                        (cur_messages (entering (selected_character i) s) @ [user_msg p])),
              reply_slot = Some (final_slot L (remote i)),
              total_msgs = length (cur_messages (entering (selected_character i) s)) + 2,
              user_msgs = length (filter (\<lambda>m. role m = ''user'')
                            (cur_messages (entering (selected_character i) s))) + 1,
              export = Some (export_data (cur_messages (entering (selected_character i) s)
                        @ [user_msg p, assistant_msg (fst (fst (attempt (remote i))))]))\<rparr>"
  using assms
  by (auto simp: script_def submits_def key_present_def submit_def Let_def export_button_def
      user_msg_def assistant_msg_def entering_def change_character_def prepare_def
      guarded_uninterrupted
      split: option.splits prod.splits)

lemma run_submits: "submits i p \<Longrightarrow> run L i s = script L None i s"
  by (simp add: run_def execute_def script_submits)

lemma cur_character_entering: "cur_character (entering sel s) = sel"
  by (simp add: entering_def change_character_def)

lemma cur_messages_entering:
  "cur_messages (entering sel s) =
     (if character s = None \<or> character s = Some sel then history s else [])"
  by (auto simp: entering_def change_character_def prepare_def history_def split: option.splits)

lemma history_store: "history (store r) = cur_messages r"
  by (simp add: history_def store_def)

lemma character_store: "character (store r) = Some (cur_character r)"
  by (simp add: store_def)

lemma after_run:
  "after L i s = (case run L i s of Stopped _ \<Rightarrow> s | Rerun s' \<Rightarrow> s' | Interrupted s' \<Rightarrow> s'
                  | Finished s' _ \<Rightarrow> s')"
  by (simp add: after_def left_by_def run_def)

lemma after_submits:
  assumes "submits i p"
  shows "after L i s =
           store \<lparr>cur_messages = cur_messages (entering (selected_character i) s)
                      @ [user_msg p, assistant_msg (fst (fst (attempt (remote i))))],
                   cur_character = selected_character i\<rparr>"
  by (simp add: after_run run_submits [OF assms] script_submits [OF assms])

lemma shown_by_submits:
  assumes "submits i p"
  shows "\<exists>out. shown_by L i s = Some out
           \<and> sent out = Some (build_request L (widget_settings i) (selected_character i)
                        (cur_messages (entering (selected_character i) s) @ [user_msg p]))
           \<and> reply_slot out = Some (final_slot L (remote i))"
  by (simp add: shown_by_def run_submits [OF assms] script_submits [OF assms])

lemma script_quiet:
  assumes "key_present i" "\<not> reset_clicked i" "prompt i = None \<or> prompt i = Some []"
  shows "script L None i s =
           Finished (store (entering (selected_character i) s))
             \<lparr>rendered = cur_messages (entering (selected_character i) s),
              sent = None, reply_slot = None,
              total_msgs = length (cur_messages (entering (selected_character i) s)),
              user_msgs = length (filter (\<lambda>m. role m = ''user'')
                            (cur_messages (entering (selected_character i) s))),
              export = export_button (cur_messages (entering (selected_character i) s))\<rparr>"
  using assms
  by (auto simp: script_def key_present_def submit_def Let_def split: option.splits)

lemma script_reset:
  assumes "key_present i" "reset_clicked i" "pt \<noteq> Some In_Sidebar"
  shows "script L pt i s = Rerun \<lparr>messages = None, character = None\<rparr>"
  using assms by (auto simp: script_def key_present_def split: option.splits)

lemma script_no_key:
  assumes "\<not> key_present i"
  shows "script L None i s = Stopped (key_missing_text L)"
  using assms by (auto simp: script_def key_present_def split: option.splits)

lemma run_reset:
  assumes "key_present i" "reset_clicked i"
  shows "run L i s =
           Finished (store \<lparr>cur_messages = [], cur_character = selected_character i\<rparr>)
             \<lparr>rendered = [], sent = None, reply_slot = None, total_msgs = 0, user_msgs = 0,
              export = None\<rparr>"
proof -
  let ?j = "i\<lparr>reset_clicked := False, prompt := None\<rparr>"
  have k: "key_present ?j" using assms(1) by (simp add: key_present_def)
  have e: "entering (selected_character i) \<lparr>messages = None, character = None\<rparr>
             = \<lparr>cur_messages = [], cur_character = selected_character i\<rparr>"
    by (simp add: entering_def change_character_def prepare_def)
  have "script L None ?j \<lparr>messages = None, character = None\<rparr> =
          Finished (store \<lparr>cur_messages = [], cur_character = selected_character i\<rparr>)
             \<lparr>rendered = [], sent = None, reply_slot = None, total_msgs = 0, user_msgs = 0,
              export = None\<rparr>"
    using script_quiet [OF k, of L "\<lparr>messages = None, character = None\<rparr>"]
    by (simp add: e export_button_def)
  then show ?thesis
    by (simp add: run_def execute_def script_reset [OF assms])
qed

lemma run_quiet:
  assumes "key_present i" "\<not> reset_clicked i" "prompt i = None \<or> prompt i = Some []"
  shows "run L i s = script L None i s"
  by (simp add: run_def execute_def script_quiet [OF assms])

lemma run_no_key: "\<not> key_present i \<Longrightarrow> run L i s = Stopped (key_missing_text L)"
  by (simp add: run_def execute_def script_no_key)

text \<open>Every event is of one of four kinds.\<close>

lemma event_kinds:
  "\<not> key_present i \<or> (key_present i \<and> reset_clicked i)
   \<or> (key_present i \<and> \<not> reset_clicked i \<and> (prompt i = None \<or> prompt i = Some []))
   \<or> (\<exists>p. submits i p)"
  by (cases "prompt i") (auto simp: submits_def)


lemma run_finished_export:
  assumes "run L i s = Finished s' out"
  shows "export out = export_button (history s') \<and> total_msgs out = length (history s')"
proof -
  consider (stop) "\<not> key_present i" | (reset) "key_present i" "reset_clicked i"
    | (quiet) "key_present i" "\<not> reset_clicked i" "prompt i = None \<or> prompt i = Some []"
    | (turn) p where "submits i p"
    using event_kinds [of i] by blast
  then show ?thesis
  proof cases
    case stop
    then show ?thesis using assms by (simp add: run_no_key)
  next
    case reset
    then show ?thesis using assms by (auto simp: run_reset history_store export_button_def)
  next
    case quiet
    then show ?thesis using assms by (auto simp: run_quiet script_quiet history_store)
  next
    case turn
    then show ?thesis using assms
      by (auto simp: run_submits script_submits history_store export_button_def)
  qed
qed


subsection \<open>The loop\<close>

lemma handle_chunk_ok:
  assumes "cs \<noteq> []"
  shows "handle_chunk False cs (t, ph) =
           ((t @ fragment (Chunk cs),
             if fragment (Chunk cs) = [] then ph else Markdown (t @ fragment (Chunk cs))), None)"
proof -
  obtain d ds where cs: "cs = d # ds" using assms by (cases cs) auto
  show ?thesis
  proof (cases d)
    case None
    then show ?thesis by (simp add: cs)
  next
    case (Some dl)
    then show ?thesis
      by (cases dl; cases "delta_content dl") (auto simp: cs)
  qed
qed

lemma handle_chunk_cut:
  assumes "fragment (Chunk cs) \<noteq> []"
  shows "snd (handle_chunk True cs st) = Some Control"
proof -
  obtain t ph where st: "st = (t, ph)" by (cases st) auto
  from assms obtain c ds where "cs = Some (Delta (Some c)) # ds" "c \<noteq> []"
    by (cases "Chunk cs" rule: fragment.cases) auto
  then show ?thesis by (simp add: st)
qed

lemma delivered_good: "delivered its \<longleftrightarrow> (\<forall>it \<in> set its. good it)"
proof -
  have "good it \<longleftrightarrow> (\<exists>cs. it = Chunk cs \<and> cs \<noteq> [])" for it
    by (cases it) auto
  then show ?thesis by (simp add: delivered_def)
qed

lemma consume_delivered:
  "delivered its \<Longrightarrow>
   consume its (t, ph) =
     ((t @ concat (map fragment its),
       if concat (map fragment its) = [] then ph else Markdown (t @ concat (map fragment its))),
      None)"
proof (induction its arbitrary: t ph)
  case Nil
  then show ?case by (simp add: consume_Nil)
next
  case (Cons it its)
  from Cons.prems obtain cs where it: "it = Chunk cs" "cs \<noteq> []"
    by (auto simp: delivered_def)
  from Cons.prems have d: "delivered its" by (simp add: delivered_def)
  show ?case
    by (simp add: it consume_Chunk handle_chunk_ok [OF it(2)] Cons.IH [OF d])
qed

lemma consume_failure:
  assumes "delivered pre" and "bad = Stream_Raises e \<or> bad = Chunk [] \<and> e = index_error"
  shows "consume (pre @ bad # rest) (t, ph) =
     ((t @ concat (map fragment pre),
       if concat (map fragment pre) = [] then ph else Markdown (t @ concat (map fragment pre))),
      Some (Error e))"
  using assms(1)
proof (induction pre arbitrary: t ph)
  case Nil
  from assms(2) show ?case by (auto simp: consume_Raises consume_Chunk)
next
  case (Cons it pre)
  from Cons.prems obtain cs where it: "it = Chunk cs" "cs \<noteq> []"
    by (auto simp: delivered_def)
  from Cons.prems have d: "delivered pre" by (simp add: delivered_def)
  show ?case
    by (simp add: it consume_Chunk handle_chunk_ok [OF it(2)] Cons.IH [OF d])
qed

lemma consume_raises:
  "\<not> delivered its \<Longrightarrow> snd (consume its st) \<noteq> None"
proof (induction its arbitrary: st)
  case Nil
  then show ?case by (simp add: delivered_def)
next
  case (Cons it its)
  show ?case
  proof (cases it)
    case (Stream_Raises e)
    then show ?thesis by (simp add: consume_Raises)
  next
    case (Chunk cs)
    obtain t ph where st: "st = (t, ph)" by (cases st) auto
    show ?thesis
    proof (cases "cs = []")
      case True
      then show ?thesis by (simp add: Chunk consume_Chunk st)
    next
      case False
      with Cons.prems Chunk have "\<not> delivered its" by (auto simp: delivered_def)
      from Cons.IH [OF this] show ?thesis
        by (simp add: Chunk consume_Chunk st handle_chunk_ok [OF False])
    qed
  qed
qed

lemma attempt_Stream: "attempt (Stream its) = consume its ([], Nothing_Shown)"
  by (simp add: attempt_def attempt_at_def consume_def)

lemma attempt_Create: "attempt (Create_Raises e) = (([], Nothing_Shown), Some (Error e))"
  by (simp add: attempt_def attempt_at_def)

lemma succeeds_Stream: "succeeds (Stream its) \<longleftrightarrow> delivered its"
proof
  assume "succeeds (Stream its)"
  then show "delivered its"
    using consume_raises [of its "([], Nothing_Shown)"] by (auto simp: succeeds_def attempt_Stream)
next
  assume "delivered its"
  then show "succeeds (Stream its)"
    by (simp add: succeeds_def attempt_Stream consume_delivered)
qed

lemma delivered_take: "delivered its \<Longrightarrow> delivered (take k its)"
  by (auto simp: delivered_def dest: in_set_takeD)

lemma delivered_drop: "delivered its \<Longrightarrow> delivered (drop k its)"
  by (auto simp: delivered_def dest: in_set_dropD)

lemma consume_text:
  "fst (fst (consume its (t, ph))) = t @ concat (map fragment (takeWhile good its))"
proof (induction its arbitrary: t ph)
  case Nil
  show ?case by (simp add: consume_Nil)
next
  case (Cons it its)
  show ?case
  proof (cases it)
    case (Stream_Raises e)
    then show ?thesis by (simp add: consume_Raises)
  next
    case (Chunk cs)
    show ?thesis
    proof (cases "cs = []")
      case True
      then show ?thesis by (simp add: Chunk consume_Chunk)
    next
      case False
      then show ?thesis
        by (simp add: Chunk consume_Chunk handle_chunk_ok [OF False] Cons.IH)
    qed
  qed
qed

lemma attempt_text: "fst (fst (attempt r)) = accumulated r"
  by (cases r) (simp_all add: attempt_Create attempt_Stream accumulated_def consume_text)

lemma failing_response:
  assumes "\<not> succeeds r"
  shows "(\<exists>e. r = Create_Raises e)
         \<or> (\<exists>pre bad rest e. r = Stream (pre @ bad # rest) \<and> delivered pre
              \<and> (bad = Stream_Raises e \<or> bad = Chunk [] \<and> e = index_error))"
proof (cases r)
  case (Create_Raises e)
  then show ?thesis by simp
next
  case (Stream its)
  with assms have "\<not> delivered its" by (simp add: succeeds_Stream)
  then have "\<exists>it \<in> set its. \<not> good it" by (simp add: delivered_good)
  then obtain pre bad rest where s: "its = pre @ bad # rest" "\<not> good bad" "\<forall>it \<in> set pre. good it"
    by (auto dest!: split_list_first_prop)
  from s(3) have d: "delivered pre" by (simp add: delivered_good)
  from s(2) have "(\<exists>e. bad = Stream_Raises e) \<or> bad = Chunk []"
    by (cases bad) auto
  with s(1) d Stream show ?thesis by blast
qed

lemma stream_loop_cut:
  assumes "delivered pre" and "fragment (Chunk cs) \<noteq> []"
  shows "snd (stream_loop (Some (length pre)) (pre @ Chunk cs # rest) st) = Some Control"
  using assms(1)
proof (induction pre arbitrary: st)
  case Nil
  obtain st' where "handle_chunk True cs st = (st', Some Control)"
    using handle_chunk_cut [OF assms(2), of st] by (cases "handle_chunk True cs st") auto
  then show ?case by simp
next
  case (Cons it pre)
  from Cons.prems obtain ds where it: "it = Chunk ds" "ds \<noteq> []"
    by (auto simp: delivered_def)
  from Cons.prems have d: "delivered pre" by (simp add: delivered_def)
  obtain t ph where st: "st = (t, ph)" by (cases st) auto
  show ?case
    by (simp add: it st handle_chunk_ok [OF it(2)] Cons.IH [OF d])
qed


subsection \<open>Interrupted executions\<close>

lemma carried_entering: "cur_messages (entering sel s) = carried sel s"
  by (simp add: cur_messages_entering carried_def)

lemma script_state:
  assumes "key_present i" "\<not> reset_clicked i" "pt \<noteq> Some In_Sidebar"
  shows "\<exists>s'. (script L pt i s = Interrupted s' \<or> (\<exists>out. script L pt i s = Finished s' out))
           \<and> character s' = Some (selected_character i)
           \<and> (history s' = carried (selected_character i) s
                \<or> (\<exists>p. prompt i = Some p \<and> p \<noteq> []
                     \<and> (history s' = carried (selected_character i) s @ [user_msg p]
                          \<or> (\<exists>t. history s' =
                                carried (selected_character i) s @ [user_msg p, assistant_msg t]))))"
proof -
  let ?r3 = "entering (selected_character i) s"
  have k: "\<not> (case getenv_key i of None \<Rightarrow> True | Some k \<Rightarrow> k = [])"
    using assms(1) by (simp add: key_present_def split: option.splits)
  show ?thesis
  proof (cases "pt = Some In_History")
    case True
    then show ?thesis
      using assms k
      by (simp add: script_def Let_def history_store character_store cur_character_entering
          carried_entering)
  next
    case False
    obtain r5 req slot fin where sub: "submit L pt i ?r3 = (r5, req, slot, fin)"
      by (cases "submit L pt i ?r3") auto
    have out: "script L pt i s = Interrupted (store r5)
                \<or> (\<exists>out. script L pt i s = Finished (store r5) out)"
      using assms k False sub by (simp add: script_def Let_def)
    have c: "cur_character r5 = selected_character i"
      using sub
      by (auto simp: submit_def Let_def cur_character_entering
          split: option.splits if_splits prod.splits)
    have h: "cur_messages r5 = carried (selected_character i) s
                \<or> (\<exists>p. prompt i = Some p \<and> p \<noteq> []
                     \<and> (cur_messages r5 = carried (selected_character i) s @ [user_msg p]
                          \<or> (\<exists>t. cur_messages r5 =
                                carried (selected_character i) s @ [user_msg p, assistant_msg t])))"
      using sub
      by (auto simp: submit_def Let_def carried_entering user_msg_def assistant_msg_def
          split: option.splits if_splits prod.splits)
    from out c h show ?thesis
      by (auto simp: history_store character_store)
  qed
qed

lemma script_early:
  "pt = Some In_Sidebar \<or> \<not> key_present i \<Longrightarrow>
   script L pt i s = Interrupted s \<or> script L pt i s = Stopped (key_missing_text L)"
  by (auto simp: script_def key_present_def split: option.splits)

lemma left_by_early:
  "pt = Some In_Sidebar \<or> \<not> key_present i \<Longrightarrow> left_by L pt i s = s"
  using script_early [of pt i L s]
  by (auto simp: left_by_def execute_def)

lemma left_by_reset:
  assumes "key_present i" "reset_clicked i" "pt \<noteq> Some In_Sidebar"
  shows "history (left_by L pt i s) = []"
proof -
  let ?j = "i\<lparr>reset_clicked := False, prompt := None\<rparr>"
  let ?c = "\<lparr>messages = None, character = None\<rparr>"
  have k: "key_present ?j" "\<not> reset_clicked ?j" using assms(1) by (simp_all add: key_present_def)
  from script_state [OF k assms(3), of L ?c]
  obtain s' where s': "script L pt ?j ?c = Interrupted s' \<or> (\<exists>out. script L pt ?j ?c = Finished s' out)"
    "history s' = carried (selected_character ?j) ?c"
    by auto
  have "carried (selected_character ?j) ?c = []"
    by (simp add: carried_def history_def)
  with s' show ?thesis
    by (auto simp: left_by_def execute_def script_reset [OF assms])
qed

lemma left_by_plain:
  assumes "key_present i" "\<not> reset_clicked i" "pt \<noteq> Some In_Sidebar"
  shows "character (left_by L pt i s) = Some (selected_character i)
           \<and> (history (left_by L pt i s) = carried (selected_character i) s
                \<or> (\<exists>p. prompt i = Some p \<and> p \<noteq> []
                     \<and> (history (left_by L pt i s) = carried (selected_character i) s @ [user_msg p]
                          \<or> (\<exists>t. history (left_by L pt i s) =
                                carried (selected_character i) s @ [user_msg p, assistant_msg t]))))"
  using script_state [OF assms, of L s]
  by (auto simp: left_by_def execute_def)

lemma history_left_by_cases:
  "history (left_by L pt i s) = history s \<or> history (left_by L pt i s) = []
   \<or> (\<exists>base p. (base = history s \<or> base = [])
        \<and> (history (left_by L pt i s) = base @ [user_msg p]
             \<or> (\<exists>t. history (left_by L pt i s) = base @ [user_msg p, assistant_msg t])))"
proof -
  have c: "carried (selected_character i) s = history s \<or> carried (selected_character i) s = []"
    by (simp add: carried_def)
  consider (early) "pt = Some In_Sidebar \<or> \<not> key_present i"
    | (reset) "key_present i" "reset_clicked i" "pt \<noteq> Some In_Sidebar"
    | (plain) "key_present i" "\<not> reset_clicked i" "pt \<noteq> Some In_Sidebar"
    by blast
  then show ?thesis
  proof cases
    case early
    then show ?thesis by (simp add: left_by_early)
  next
    case reset
    then show ?thesis by (simp add: left_by_reset)
  next
    case plain
    from left_by_plain [OF plain, of L s] c show ?thesis
      by metis
  qed
qed

lemma left_by_interrupted_turn:
  assumes "submits i p"
    and "pt = Some In_Echo \<or> guarded L pt (remote i) = None"
    and "pt \<noteq> Some In_Sidebar" "pt \<noteq> Some In_History"
  shows "history (left_by L pt i s) = carried (selected_character i) s @ [user_msg p]"
proof -
  have k: "\<not> (case getenv_key i of None \<Rightarrow> True | Some k \<Rightarrow> k = [])"
    using assms(1) by (simp add: submits_def key_present_def split: option.splits)
  have "script L pt i s =
          Interrupted (store ((entering (selected_character i) s)
            \<lparr>cur_messages := carried (selected_character i) s @ [user_msg p]\<rparr>))"
    using assms k
    by (auto simp: script_def Let_def submit_def submits_def carried_entering user_msg_def)
  then show ?thesis
    by (simp add: left_by_def execute_def history_store)
qed

lemma guarded_error_box:
  assumes "\<not> succeeds r"
  shows "guarded L (Some In_Error_Box) r = None"
proof -
  have a: "attempt_at (Some In_Error_Box) r = attempt r"
    by (cases r) (simp_all add: attempt_def attempt_at_def)
  obtain st x where b: "attempt r = (st, Some x)"
    using assms by (cases "attempt r") (auto simp: succeeds_def)
  obtain t ph where st: "st = (t, ph)" by (cases st) auto
  show ?thesis
    by (cases x) (simp_all add: guarded_def a b st)
qed

lemma guarded_stream_cut:
  assumes "delivered pre" and "fragment (Chunk cs) \<noteq> []"
  shows "guarded L (Some (In_Stream (length pre))) (Stream (pre @ Chunk cs # rest)) = None"
proof -
  obtain st where "attempt_at (Some (In_Stream (length pre))) (Stream (pre @ Chunk cs # rest))
      = (st, Some Control)"
    using stream_loop_cut [OF assms, of rest "([], Nothing_Shown)"]
    by (cases "stream_loop (Some (length pre)) (pre @ Chunk cs # rest) ([], Nothing_Shown)")
       (auto simp: attempt_at_def)
  then show ?thesis
    by (cases st) (simp add: guarded_def)
qed

lemma run_all_Nil: "run_all L [] s = s"
  by (simp add: run_all_def)

lemma run_all_Cons: "run_all L ((pt, i) # evs) s = run_all L evs (left_by L pt i s)"
  by (simp add: run_all_def)

subsection \<open>The example events\<close>

lemma key_present_hello: "key_present hello"
  by (simp add: key_present_def hello_def)

lemma submits_hello: "submits hello ''Hello''"
  by (simp add: submits_def key_present_def hello_def)

lemma submits_broken: "submits broken ''More''"
  by (simp add: submits_def key_present_def hello_def broken_def)

lemma submits_outage: "submits outage ''Hello''"
  by (simp add: outage_def submits_def key_present_def hello_def)

lemma submits_ask: "submits ask ''Hi''"
  by (simp add: submits_def key_present_def ask_def hello_def)

lemma submits_again: "submits again ''Again''"
  by (simp add: submits_def key_present_def again_def hello_def)


lemma attempt_hello: "attempt (remote hello) = ((''Hi there'', Markdown ''Hi there''), None)"
  by (simp add: hello_def attempt_Stream consume_Chunk consume_Nil)

lemma attempt_broken:
  "attempt (remote broken) = ((''Par'', Markdown ''Par''), Some (Error connection_error))"
  by (simp add: broken_def attempt_Stream consume_Chunk consume_Raises)

lemma succeeds_hello: "succeeds (remote hello)"
  by (simp add: succeeds_def attempt_hello)

lemma sel_hello: "selected_character hello = Friendly_Mentor"
  by (simp add: hello_def)

lemma sel_broken: "selected_character broken = Friendly_Mentor"
  by (simp add: broken_def hello_def)

lemma history_fresh: "history fresh = []"
  by (simp add: history_def fresh_def)

lemma carried_fresh: "carried c fresh = []"
  by (simp add: carried_def history_fresh)

lemma history_one_turn: "history one_turn = [user_msg ''Hello'', assistant_msg ''Hi there'']"
  by (simp add: history_def one_turn_def)

lemma entering_one_turn:
  "cur_messages (entering Friendly_Mentor one_turn) = [user_msg ''Hello'', assistant_msg ''Hi there'']"
  by (simp add: cur_messages_entering history_one_turn) (simp add: one_turn_def)


lemma entering_long_talk: "length (cur_messages (entering Friendly_Mentor long_talk)) = 24"
  by (simp add: cur_messages_entering) (simp add: long_talk_def history_def length_concat sum_list_replicate)

lemma shown_by_Some:
  "shown_by L i s = Some out \<Longrightarrow> run L i s = Finished (after L i s) out"
  by (cases "run L i s") (simp_all add: shown_by_def after_run)

subsection \<open>The claims\<close>


text \<open>
  Claim C2. For every submission the \<open>messages\<close> argument of the call is one system entry
  with the instruction text of the selected persona, followed by \<open>recent\<close>: the last
  \<open>min 20 n\<close> entries of the history with the new user message, \<open>n\<close> being its length. The
  list has at most 21 entries, and the retained history still begins with all of
  \<open>older @ recent\<close>.
\<close>

theorem sent_list_is_system_entry_and_window:
  assumes "submits i p"
  shows "\<exists>out req older recent.
           shown_by L i s = Some out \<and> sent out = Some req
           \<and> req_messages req
               = \<lparr>role = ''system'', content = character_prompts L (selected_character i)\<rparr> # recent
           \<and> cur_messages (entering (selected_character i) s) @ [\<lparr>role = ''user'', content = p\<rparr>]
               = older @ recent
           \<and> length recent = min 20 (length (cur_messages (entering (selected_character i) s)) + 1)
           \<and> length (req_messages req) \<le> 21
           \<and> take (length (cur_messages (entering (selected_character i) s)) + 1)
                (history (after L i s))
               = older @ recent"
proof -
  let ?ms = "cur_messages (entering (selected_character i) s) @ [user_msg p]"
  obtain out where o: "shown_by L i s = Some out"
    "sent out = Some (build_request L (widget_settings i) (selected_character i) ?ms)"
    using shown_by_submits [OF assms, of L s] by blast
  have h: "history (after L i s) = ?ms @ [assistant_msg (fst (fst (attempt (remote i))))]"
    by (simp add: after_submits [OF assms] history_store)
  have w: "take (length ?ms - 20) ?ms @ window ?ms = ?ms"
    by (rule window_suffix)
  have l: "length (window ?ms) = min 20 (length ?ms)"
    by (rule window_length)
  show ?thesis
    apply (rule exI [of _ out])
    apply (rule exI [of _ "build_request L (widget_settings i) (selected_character i) ?ms"])
    apply (rule exI [of _ "take (length ?ms - 20) ?ms"])
    apply (rule exI [of _ "window ?ms"])
    using o h w l
    apply (simp add: build_request_def user_msg_def)
    done
qed

theorem sent_list_is_system_entry_and_window_witness:
  "submits hello ''Hello''
   \<and> (\<exists>out req (older :: message list) recent.
         shown_by demo_literals hello long_talk = Some out \<and> sent out = Some req
         \<and> req_messages req = \<lparr>role = ''system'', content = ''mentor''\<rparr> # recent
         \<and> length recent = 20 \<and> length older = 5
         \<and> length (history (after demo_literals hello long_talk)) = 26)"
proof -
  obtain out req older recent where w:
    "shown_by demo_literals hello long_talk = Some out" "sent out = Some req"
    "req_messages req
       = \<lparr>role = ''system'', content = character_prompts demo_literals (selected_character hello)\<rparr>
           # recent"
    "cur_messages (entering (selected_character hello) long_talk)
       @ [\<lparr>role = ''user'', content = ''Hello''\<rparr>] = older @ recent"
    "length recent = min 20 (length (cur_messages (entering (selected_character hello) long_talk)) + 1)"
    using sent_list_is_system_entry_and_window [OF submits_hello, of demo_literals long_talk]
    by blast
  have r: "length recent = 20"
    using w(5) by (simp add: sel_hello entering_long_talk)
  have "length (older @ recent) = 25"
    using w(4) [symmetric] by (simp add: sel_hello entering_long_talk)
  then have o: "length older = 5" using r by simp
  have p: "character_prompts demo_literals (selected_character hello) = ''mentor''"
    by (simp add: sel_hello demo_literals_def)
  have h: "length (history (after demo_literals hello long_talk)) = 26"
    by (simp add: after_submits [OF submits_hello] history_store sel_hello entering_long_talk)
  have q: "req_messages req = \<lparr>role = ''system'', content = ''mentor''\<rparr> # recent"
    using w(3) p by simp
  from w(1,2) q r o h submits_hello show ?thesis by blast
qed

text \<open>
  Claim C5. When the selected persona differs from the stored one, block 3 leaves an empty
  history and the selected persona, whatever the history was. After such an event the
  retained history is empty, and the next submission under the new persona sends exactly
  the new persona's instruction text and the new user message.
\<close>

theorem persona_switch_empties_history:
  assumes "character s = Some c" and "c \<noteq> selected_character i"
    and "key_present i" and "\<not> reset_clicked i"
  shows "entering (selected_character i) s
           = \<lparr>cur_messages = [], cur_character = selected_character i\<rparr>
         \<and> (prompt i = None \<longrightarrow>
               history (after L i s) = []
               \<and> character (after L i s) = Some (selected_character i)
               \<and> (\<forall>j p. submits j p \<and> selected_character j = selected_character i \<longrightarrow>
                    (\<exists>out req. shown_by L j (after L i s) = Some out \<and> sent out = Some req
                       \<and> req_messages req =
                           [\<lparr>role = ''system'', content = character_prompts L (selected_character i)\<rparr>,
                            \<lparr>role = ''user'', content = p\<rparr>])))"
proof -
  have e: "entering (selected_character i) s
           = \<lparr>cur_messages = [], cur_character = selected_character i\<rparr>"
    using assms(1,2) by (simp add: entering_def change_character_def prepare_def)
  have rest: "history (after L i s) = []
               \<and> character (after L i s) = Some (selected_character i)
               \<and> (\<forall>j p. submits j p \<and> selected_character j = selected_character i \<longrightarrow>
                    (\<exists>out req. shown_by L j (after L i s) = Some out \<and> sent out = Some req
                       \<and> req_messages req =
                           [\<lparr>role = ''system'', content = character_prompts L (selected_character i)\<rparr>,
                            \<lparr>role = ''user'', content = p\<rparr>]))" if n: "prompt i = None"
  proof -
    have a: "after L i s = store \<lparr>cur_messages = [], cur_character = selected_character i\<rparr>"
      using assms(3,4) n by (simp add: after_run run_quiet script_quiet e)
    have h: "history (after L i s) = []" and c: "character (after L i s) = Some (selected_character i)"
      by (simp_all add: a history_store character_store)
    have "\<exists>out req. shown_by L j (after L i s) = Some out \<and> sent out = Some req
                       \<and> req_messages req =
                           [\<lparr>role = ''system'', content = character_prompts L (selected_character i)\<rparr>,
                            \<lparr>role = ''user'', content = p\<rparr>]"
      if "submits j p" "selected_character j = selected_character i" for j p
    proof -
      have m: "cur_messages (entering (selected_character i) (after L i s)) = []"
        by (simp add: cur_messages_entering h)
      from shown_by_submits [OF that(1), of L "after L i s"] show ?thesis
        by (auto simp: m that(2) build_request_def window_def N_def user_msg_def)
    qed
    with h c show ?thesis by blast
  qed
  from e rest show ?thesis by blast
qed

theorem persona_switch_empties_history_witness:
  "character one_turn = Some Friendly_Mentor \<and> Friendly_Mentor \<noteq> selected_character switch
   \<and> key_present switch \<and> \<not> reset_clicked switch \<and> prompt switch = None
   \<and> history one_turn \<noteq> []
   \<and> history (after demo_literals switch one_turn) = []
   \<and> character (after demo_literals switch one_turn) = Some Calm_Librarian
   \<and> (\<exists>out req. shown_by demo_literals ask (after demo_literals switch one_turn) = Some out
         \<and> sent out = Some req
         \<and> req_messages req = [\<lparr>role = ''system'', content = ''librarian''\<rparr>,
                                \<lparr>role = ''user'', content = ''Hi''\<rparr>])"
proof -
  have a: "character one_turn = Some Friendly_Mentor" by (simp add: one_turn_def)
  have s: "selected_character switch = Calm_Librarian" by (simp add: switch_def)
  have b: "Friendly_Mentor \<noteq> selected_character switch" by (simp add: s)
  have c: "key_present switch" by (simp add: switch_def key_present_def hello_def)
  have d: "\<not> reset_clicked switch" by (simp add: switch_def hello_def)
  have e: "prompt switch = None" by (simp add: switch_def)
  have f: "selected_character ask = selected_character switch" by (simp add: ask_def switch_def)
  have g: "character_prompts demo_literals Calm_Librarian = ''librarian''"
    by (simp add: demo_literals_def)
  have n: "history one_turn \<noteq> []" by (simp add: history_one_turn)
  from persona_switch_empties_history [OF a b c d, of demo_literals] e submits_ask f
  have "history (after demo_literals switch one_turn) = []"
    "character (after demo_literals switch one_turn) = Some (selected_character switch)"
    "\<exists>out req. shown_by demo_literals ask (after demo_literals switch one_turn) = Some out
         \<and> sent out = Some req
         \<and> req_messages req =
            [\<lparr>role = ''system'', content = character_prompts demo_literals (selected_character switch)\<rparr>,
             \<lparr>role = ''user'', content = ''Hi''\<rparr>]"
    by blast+
  with a b c d e n show ?thesis by (simp add: s g)
qed

text \<open>
  Claim C8. When \<open>os.getenv("OPENAI_API_KEY")\<close> is \<open>None\<close>, the execution shows the
  missing-key text and stops: it yields no outputs and leaves the session state as it
  was. When the key is present (and not empty) the execution reaches the end of the
  script. A key that is present but empty is treated like a missing one
  (\<open>script_no_key\<close>). The events here are those whose execution the framework does not
  interrupt.
\<close>

theorem missing_key_halts_startup:
  "(getenv_key i = None \<longrightarrow>
      run L i s = Stopped (key_missing_text L) \<and> after L i s = s \<and> shown_by L i s = None)
   \<and> (key_present i \<longrightarrow> (\<exists>s' out. run L i s = Finished s' out))"
proof (intro conjI impI)
  assume n: "getenv_key i = None"
  then have k: "\<not> key_present i" by (simp add: key_present_def)
  show "run L i s = Stopped (key_missing_text L)" by (rule run_no_key [OF k])
  then show "after L i s = s" "shown_by L i s = None"
    by (simp_all add: after_run shown_by_def)
next
  assume k: "key_present i"
  consider (reset) "reset_clicked i"
    | (quiet) "\<not> reset_clicked i" "prompt i = None \<or> prompt i = Some []"
    | (turn) p where "submits i p"
    using event_kinds [of i] k by blast
  then show "\<exists>s' out. run L i s = Finished s' out"
  proof cases
    case reset
    then show ?thesis by (simp add: run_reset [OF k])
  next
    case quiet
    then show ?thesis by (simp add: run_quiet [OF k] script_quiet [OF k])
  next
    case turn
    then show ?thesis by (simp add: run_submits script_submits)
  qed
qed

theorem missing_key_halts_startup_witness:
  "getenv_key unconfigured = None
   \<and> run demo_literals unconfigured one_turn = Stopped ''OPENAI_API_KEY is missing''
   \<and> after demo_literals unconfigured one_turn = one_turn
   \<and> key_present hello \<and> (\<exists>s' out. run demo_literals hello one_turn = Finished s' out)"
proof -
  have n: "getenv_key unconfigured = None" by (simp add: unconfigured_def)
  have k: "key_missing_text demo_literals = ''OPENAI_API_KEY is missing''"
    by (simp add: demo_literals_def)
  from missing_key_halts_startup [of unconfigured demo_literals one_turn] n
  have "run demo_literals unconfigured one_turn = Stopped (key_missing_text demo_literals)"
    "after demo_literals unconfigured one_turn = one_turn"
    by blast+
  moreover from missing_key_halts_startup [of hello demo_literals one_turn] key_present_hello
  have "\<exists>s' out. run demo_literals hello one_turn = Finished s' out" by blast
  ultimately show ?thesis using n key_present_hello by (simp add: k)
qed

text \<open>
  Claim C9. In every execution that reaches block 7 the download button is created exactly
  when the retained history is not empty: with an empty history there is no export.
\<close>

theorem export_not_offered_for_empty_history:
  assumes "shown_by L i s = Some out"
  shows "(history (after L i s) = [] \<longrightarrow> export out = None)
         \<and> (export out = None \<longrightarrow> history (after L i s) = [])"
  using run_finished_export [OF shown_by_Some [OF assms]]
  by (simp add: export_button_def)

theorem export_not_offered_for_empty_history_witness:
  "(\<exists>out. shown_by demo_literals switch one_turn = Some out \<and> export out = None)
   \<and> history (after demo_literals switch one_turn) = []"
proof -
  have a: "character one_turn = Some Friendly_Mentor" by (simp add: one_turn_def)
  have s: "selected_character switch = Calm_Librarian" by (simp add: switch_def)
  have c: "key_present switch" by (simp add: switch_def key_present_def hello_def)
  have d: "\<not> reset_clicked switch" by (simp add: switch_def hello_def)
  have e: "prompt switch = None" by (simp add: switch_def)
  have m: "cur_messages (entering Calm_Librarian one_turn) = []"
    by (simp add: cur_messages_entering a)
  obtain out where o: "shown_by demo_literals switch one_turn = Some out"
    by (simp add: shown_by_def run_quiet [OF c d] script_quiet [OF c d] e)
  have h: "history (after demo_literals switch one_turn) = []"
    by (simp add: after_run run_quiet [OF c d] script_quiet [OF c d] e history_store s m)
  from export_not_offered_for_empty_history [OF o] h o show ?thesis by blast
qed

text \<open>
  Claim C7. For a submission whose call succeeds (neither \<open>create\<close> nor the iteration
  raises), the content of the assistant message appended is the concatenation, in order,
  of the fragments of the chunks; a chunk whose first choice has no delta, no content or
  empty content contributes nothing. After the first \<open>k\<close> chunks, for every \<open>k\<close>, the
  loop holds the concatenation of their fragments in \<open>full_text\<close> and the placeholder
  shows that text (nothing while it is still empty), and the rest of the loop continues
  from there.
\<close>

theorem reply_is_concatenation_of_fragments:
  assumes "submits i p" and "remote i = Stream its" and "succeeds (remote i)"
  shows "history (after L i s) =
           cur_messages (entering (selected_character i) s)
             @ [\<lparr>role = ''user'', content = p\<rparr>,
                \<lparr>role = ''assistant'', content = concat (map fragment its)\<rparr>]
         \<and> (\<forall>k \<le> length its.
               consume (take k its) ([], Nothing_Shown)
                 = ((concat (map fragment (take k its)),
                     slot_of (concat (map fragment (take k its)))), None)
               \<and> consume its ([], Nothing_Shown)
                   = consume (drop k its)
                       (concat (map fragment (take k its)),
                        slot_of (concat (map fragment (take k its)))))
         \<and> (\<exists>out. shown_by L i s = Some out
               \<and> reply_slot out = Some (slot_of (concat (map fragment its))))"
proof -
  have d: "delivered its" using assms(2,3) by (simp add: succeeds_Stream)
  have a: "attempt (remote i)
             = ((concat (map fragment its), slot_of (concat (map fragment its))), None)"
    by (simp add: assms(2) attempt_Stream consume_delivered [OF d] slot_of_def)
  have h: "history (after L i s) =
           cur_messages (entering (selected_character i) s)
             @ [\<lparr>role = ''user'', content = p\<rparr>,
                \<lparr>role = ''assistant'', content = concat (map fragment its)\<rparr>]"
    by (simp add: after_submits [OF assms(1)] history_store a
        user_msg_def assistant_msg_def)
  have g: "final_slot L (remote i) = slot_of (concat (map fragment its))"
    by (simp add: final_slot_def a)
  have o: "\<exists>out. shown_by L i s = Some out
               \<and> reply_slot out = Some (slot_of (concat (map fragment its)))"
    using shown_by_submits [OF assms(1), of L s] g by auto
  have k: "consume (take k its) ([], Nothing_Shown)
                 = ((concat (map fragment (take k its)),
                     slot_of (concat (map fragment (take k its)))), None)
               \<and> consume its ([], Nothing_Shown)
                   = consume (drop k its)
                       (concat (map fragment (take k its)),
                        slot_of (concat (map fragment (take k its))))" for k
  proof -
    have t: "consume (take k its) ([], Nothing_Shown)
                 = ((concat (map fragment (take k its)),
                     slot_of (concat (map fragment (take k its)))), None)"
      by (simp add: consume_delivered [OF delivered_take [OF d]] slot_of_def)
    have "concat (map fragment its)
            = concat (map fragment (take k its)) @ concat (map fragment (drop k its))"
      by (metis append_take_drop_id concat_append map_append)
    then have "consume (drop k its)
                 (concat (map fragment (take k its)), slot_of (concat (map fragment (take k its))))
               = ((concat (map fragment its), slot_of (concat (map fragment its))), None)"
      by (auto simp: consume_delivered [OF delivered_drop [OF d]] slot_of_def)
    moreover have "consume its ([], Nothing_Shown)
               = ((concat (map fragment its), slot_of (concat (map fragment its))), None)"
      by (simp add: consume_delivered [OF d] slot_of_def)
    ultimately show ?thesis using t by simp
  qed
  from h k o show ?thesis by blast
qed

theorem reply_is_concatenation_of_fragments_witness:
  "submits hello ''Hello'' \<and> succeeds (remote hello)
   \<and> history (after demo_literals hello fresh) =
       [\<lparr>role = ''user'', content = ''Hello''\<rparr>, \<lparr>role = ''assistant'', content = ''Hi there''\<rparr>]
   \<and> consume (take 2 [Chunk [Some (Delta (Some ''Hi''))], Chunk [Some (Delta None)],
                       Chunk [Some (Delta (Some '' there''))]]) ([], Nothing_Shown)
       = ((''Hi'', Markdown ''Hi''), None)"
proof -
  let ?its = "[Chunk [Some (Delta (Some ''Hi''))], Chunk [Some (Delta None)],
               Chunk [Some (Delta (Some '' there''))]]"
  have r: "remote hello = Stream ?its" by (simp add: hello_def)
  have e: "cur_messages (entering Friendly_Mentor fresh) = []"
    by (simp add: carried_entering carried_fresh)
  from reply_is_concatenation_of_fragments [OF submits_hello r succeeds_hello, of demo_literals fresh]
  have h: "history (after demo_literals hello fresh) =
           cur_messages (entering (selected_character hello) fresh)
             @ [\<lparr>role = ''user'', content = ''Hello''\<rparr>,
                \<lparr>role = ''assistant'', content = concat (map fragment ?its)\<rparr>]"
    and all: "\<forall>k \<le> length ?its.
               consume (take k ?its) ([], Nothing_Shown)
                 = ((concat (map fragment (take k ?its)),
                     slot_of (concat (map fragment (take k ?its)))), None)
               \<and> consume ?its ([], Nothing_Shown)
                   = consume (drop k ?its)
                       (concat (map fragment (take k ?its)),
                        slot_of (concat (map fragment (take k ?its))))"
    by blast+
  have one: "history (after demo_literals hello fresh) =
       [\<lparr>role = ''user'', content = ''Hello''\<rparr>, \<lparr>role = ''assistant'', content = ''Hi there''\<rparr>]"
    using h by (simp add: sel_hello e)
  have two: "consume (take 2 ?its) ([], Nothing_Shown) = ((''Hi'', Markdown ''Hi''), None)"
    using all [THEN spec, of 2] by (simp add: slot_of_def)
  from one two show ?thesis
    by (simp add: submits_hello succeeds_hello)
qed

text \<open>
  Claim C4. No retained entry has the role \<open>system\<close>: this holds in the first session
  state, every event (submission, persona change, reset, an execution that stops or that
  the framework interrupts at any point) preserves it, and so it holds in every session
  state reached. The system entry is built in \<open>build_request\<close>, for the list sent, and is
  not stored.
\<close>

theorem history_has_no_system_entry:
  "no_system (history fresh)
   \<and> (no_system (history s) \<longrightarrow> no_system (history (after L i s)))
   \<and> (no_system (history s) \<longrightarrow> no_system (history (left_by L pt i s)))
   \<and> no_system (history (run_all L evs fresh))"
proof -
  have base: "no_system (history fresh)"
    by (simp add: no_system_def history_fresh)
  have step: "no_system (history (left_by L pt i s))" if "no_system (history s)" for pt i s
    using history_left_by_cases [of L pt i s] that
    by (auto simp: no_system_def user_msg_def assistant_msg_def)
  have "no_system (history (run_all L evs s))" if "no_system (history s)" for s
    using that
  proof (induction evs arbitrary: s)
    case Nil
    then show ?case by (simp add: run_all_Nil)
  next
    case (Cons ev evs)
    obtain pt i where ev: "ev = (pt, i)" by (cases ev) auto
    from Cons.IH [OF step [OF Cons.prems, of pt i]] show ?case
      by (simp add: ev run_all_Cons)
  qed
  with base step [of s pt i] step [of s None i] show ?thesis
    by (simp add: after_def)
qed

theorem history_has_no_system_entry_witness:
  "no_system (history one_turn) \<and> no_system (history (after demo_literals broken one_turn))
   \<and> no_system (history (left_by demo_literals (Some (In_Stream 0)) broken one_turn))
   \<and> no_system (history (run_all demo_literals
                            [(Some (In_Stream 0), hello), (None, broken)] fresh))"
proof -
  have "no_system (history one_turn)"
    by (simp add: history_one_turn no_system_def user_msg_def assistant_msg_def)
  with history_has_no_system_entry
         [of one_turn demo_literals broken "Some (In_Stream 0)"
             "[(Some (In_Stream 0), hello), (None, broken)]"]
  show ?thesis by blast
qed

text \<open>
  Claim C1, as amended. The claim says that a submission whose call fails leaves the
  history as it was before the turn, with no assistant message appended. The script
  appends the user message before the \<open>try\<close> statement and the assistant message after
  it, outside the handler, so a failed call commits both, to the history that block 3
  leaves (\<open>carried\<close>: the history before the turn when the persona is unchanged):
  \<^item> when \<open>create\<close> raises, the assistant message has the empty content;
  \<^item> when the loop raises after the chunks \<open>pre\<close> (the iterator raises, or a chunk has no
    choice), the assistant message holds the fragments of \<open>pre\<close>, the partial text;
  \<^item> in both cases the placeholder shows the error line of the exception, and every failing
    response is of one of the two forms;
  \<^item> with the persona unchanged the history grows by exactly two entries, its former
    entries unchanged, and ends with an assistant message;
  \<^item> when the framework interrupts the script at \<open>placeholder.error\<close>, only the user message
    is appended.
\<close>

theorem failed_turn_commits_both_messages:
  assumes "submits i p"
  shows "(remote i = Create_Raises e \<longrightarrow>
            history (after L i s) =
              carried (selected_character i) s
                @ [\<lparr>role = ''user'', content = p\<rparr>, \<lparr>role = ''assistant'', content = []\<rparr>]
            \<and> (\<exists>out. shown_by L i s = Some out
                  \<and> reply_slot out = Some (Error_Box (error_line L e))))
         \<and> (remote i = Stream (pre @ bad # rest) \<and> delivered pre
              \<and> (bad = Stream_Raises e \<or> bad = Chunk [] \<and> e = index_error) \<longrightarrow>
            history (after L i s) =
              carried (selected_character i) s
                @ [\<lparr>role = ''user'', content = p\<rparr>,
                   \<lparr>role = ''assistant'', content = concat (map fragment pre)\<rparr>]
            \<and> (\<exists>out. shown_by L i s = Some out
                  \<and> reply_slot out = Some (Error_Box (error_line L e))))
         \<and> (\<not> succeeds (remote i) \<longrightarrow>
              (\<exists>e. remote i = Create_Raises e)
              \<or> (\<exists>pre bad rest e. remote i = Stream (pre @ bad # rest) \<and> delivered pre
                    \<and> (bad = Stream_Raises e \<or> bad = Chunk [] \<and> e = index_error)))
         \<and> (\<not> succeeds (remote i)
              \<and> (character s = None \<or> character s = Some (selected_character i)) \<longrightarrow>
              length (history (after L i s)) = length (history s) + 2
              \<and> take (length (history s)) (history (after L i s)) = history s
              \<and> role (last (history (after L i s))) = ''assistant'')
         \<and> (\<not> succeeds (remote i) \<longrightarrow>
              history (left_by L (Some In_Error_Box) i s) =
                carried (selected_character i) s @ [\<lparr>role = ''user'', content = p\<rparr>])"
proof -
  have h: "history (after L i s) =
             carried (selected_character i) s
               @ [\<lparr>role = ''user'', content = p\<rparr>,
                  \<lparr>role = ''assistant'', content = fst (fst (attempt (remote i)))\<rparr>]"
    by (simp add: after_submits [OF assms] history_store carried_entering
        user_msg_def assistant_msg_def)
  obtain out where o: "shown_by L i s = Some out"
    "reply_slot out = Some (final_slot L (remote i))"
    using shown_by_submits [OF assms, of L s] by blast
  have create: "history (after L i s) =
              carried (selected_character i) s
                @ [\<lparr>role = ''user'', content = p\<rparr>, \<lparr>role = ''assistant'', content = []\<rparr>]
            \<and> (\<exists>out. shown_by L i s = Some out
                  \<and> reply_slot out = Some (Error_Box (error_line L e)))"
    if "remote i = Create_Raises e"
    using h o by (simp add: that attempt_Create final_slot_def)
  have stream: "history (after L i s) =
              carried (selected_character i) s
                @ [\<lparr>role = ''user'', content = p\<rparr>,
                   \<lparr>role = ''assistant'', content = concat (map fragment pre)\<rparr>]
            \<and> (\<exists>out. shown_by L i s = Some out
                  \<and> reply_slot out = Some (Error_Box (error_line L e)))"
    if "remote i = Stream (pre @ bad # rest) \<and> delivered pre
              \<and> (bad = Stream_Raises e \<or> bad = Chunk [] \<and> e = index_error)"
  proof -
    from that have r: "remote i = Stream (pre @ bad # rest)" and d: "delivered pre"
      and b: "bad = Stream_Raises e \<or> bad = Chunk [] \<and> e = index_error"
      by blast+
    have "attempt (remote i) =
            ((concat (map fragment pre), slot_of (concat (map fragment pre))), Some (Error e))"
      using consume_failure [OF d b, of rest "[]" Nothing_Shown]
      by (simp add: r attempt_Stream slot_of_def)
    with h o show ?thesis by (simp add: final_slot_def)
  qed
  have grow: "length (history (after L i s)) = length (history s) + 2
              \<and> take (length (history s)) (history (after L i s)) = history s
              \<and> role (last (history (after L i s))) = ''assistant''"
    if "character s = None \<or> character s = Some (selected_character i)"
    using h that by (simp add: carried_def)
  have box: "history (left_by L (Some In_Error_Box) i s) =
                carried (selected_character i) s @ [\<lparr>role = ''user'', content = p\<rparr>]"
    if "\<not> succeeds (remote i)"
    using left_by_interrupted_turn [OF assms, of "Some In_Error_Box" L s]
      guarded_error_box [OF that, of L]
    by (simp add: user_msg_def)
  from create stream failing_response [of "remote i"] grow box show ?thesis
    by blast
qed

lemma remote_broken:
  "remote broken = Stream ([Chunk [Some (Delta (Some ''Par''))]] @ Stream_Raises connection_error # [])"
  by (simp add: broken_def)

lemma not_succeeds_broken: "\<not> succeeds (remote broken)"
  by (simp add: succeeds_def attempt_broken)

lemma carried_one_turn:
  "carried Friendly_Mentor one_turn = [user_msg ''Hello'', assistant_msg ''Hi there'']"
  using entering_one_turn by (simp add: carried_entering)

theorem failed_turn_commits_both_messages_witness:
  "submits broken ''More''
   \<and> remote broken = Stream ([Chunk [Some (Delta (Some ''Par''))]] @ Stream_Raises connection_error # [])
   \<and> delivered [Chunk [Some (Delta (Some ''Par''))]]
   \<and> \<not> succeeds (remote broken)
   \<and> character one_turn = Some (selected_character broken)
   \<and> history (after demo_literals broken one_turn) =
       [\<lparr>role = ''user'', content = ''Hello''\<rparr>, \<lparr>role = ''assistant'', content = ''Hi there''\<rparr>,
        \<lparr>role = ''user'', content = ''More''\<rparr>, \<lparr>role = ''assistant'', content = ''Par''\<rparr>]
   \<and> length (history (after demo_literals broken one_turn)) = length (history one_turn) + 2
   \<and> history (left_by demo_literals (Some In_Error_Box) broken one_turn) =
       [\<lparr>role = ''user'', content = ''Hello''\<rparr>, \<lparr>role = ''assistant'', content = ''Hi there''\<rparr>,
        \<lparr>role = ''user'', content = ''More''\<rparr>]"
proof -
  have d: "delivered [Chunk [Some (Delta (Some ''Par''))]]"
    by (simp add: delivered_def)
  have c: "character one_turn = Some (selected_character broken)"
    by (simp add: one_turn_def sel_broken)
  note t = failed_turn_commits_both_messages
    [OF submits_broken, of connection_error demo_literals one_turn
       "[Chunk [Some (Delta (Some ''Par''))]]" "Stream_Raises connection_error" "[]"]
  from t remote_broken d
  have h: "history (after demo_literals broken one_turn) =
             carried (selected_character broken) one_turn
               @ [\<lparr>role = ''user'', content = ''More''\<rparr>,
                  \<lparr>role = ''assistant'',
                     content = concat (map fragment [Chunk [Some (Delta (Some ''Par''))]])\<rparr>]"
    by blast
  from t not_succeeds_broken c
  have l: "length (history (after demo_literals broken one_turn)) = length (history one_turn) + 2"
    by blast
  from t not_succeeds_broken
  have b: "history (left_by demo_literals (Some In_Error_Box) broken one_turn) =
             carried (selected_character broken) one_turn @ [\<lparr>role = ''user'', content = ''More''\<rparr>]"
    by blast
  from h l b show ?thesis
    using submits_broken remote_broken d not_succeeds_broken c
    by (simp add: sel_broken carried_one_turn user_msg_def assistant_msg_def)
qed

text \<open>
  Claim C1 as stated fails when \<open>create\<close> raises on the first submission of a session: the
  history was empty before the turn and holds two entries after it.
\<close>

theorem failed_turn_history_unchanged_counterexample:
  "submits outage ''Hello'' \<and> remote outage = Create_Raises connection_error
   \<and> history fresh = []
   \<and> history (after demo_literals outage fresh) =
       [\<lparr>role = ''user'', content = ''Hello''\<rparr>, \<lparr>role = ''assistant'', content = []\<rparr>]
   \<and> length (history (after demo_literals outage fresh)) \<noteq> length (history fresh)"
proof -
  have r: "remote outage = Create_Raises connection_error"
    by (simp add: outage_def)
  have s: "selected_character outage = Friendly_Mentor"
    by (simp add: outage_def hello_def)
  have "history (after demo_literals outage fresh) =
       [\<lparr>role = ''user'', content = ''Hello''\<rparr>, \<lparr>role = ''assistant'', content = []\<rparr>]"
    by (simp add: after_submits [OF submits_outage] history_store r attempt_Create s
        carried_entering carried_fresh user_msg_def assistant_msg_def)
  then show ?thesis by (simp add: submits_outage r history_fresh)
qed





subsection \<open>Conversations under one persona\<close>

lemma exchange_submits:
  "submits i p \<Longrightarrow> exchange i = [user_msg p, assistant_msg (accumulated (remote i))]"
  by (simp add: exchange_def submits_def)

lemma turn_ok_submits:
  assumes "turn_ok c (pt, i)"
  shows "pt = None \<and> selected_character i = c \<and> (\<exists>p. submits i p)"
  using assms by (cases "prompt i") (auto simp: turn_ok_def prompted_def submits_def)

lemma left_by_turn:
  assumes "turn_ok c (pt, i)" and "character s = None \<or> character s = Some c"
  shows "history (left_by L pt i s) = history s @ exchange i
         \<and> character (left_by L pt i s) = Some c"
proof -
  from turn_ok_submits [OF assms(1)] obtain p where
    t: "pt = None" "selected_character i = c" "submits i p" by blast
  have "left_by L pt i s = after L i s" by (simp add: t(1) after_def)
  moreover have "carried c s = history s" using assms(2) by (simp add: carried_def)
  ultimately show ?thesis
    by (simp add: after_submits [OF t(3)] history_store character_store carried_entering t(2)
        exchange_submits [OF t(3)] attempt_text)
qed

lemma left_by_in_history:
  assumes "key_present i" "\<not> reset_clicked i"
  shows "left_by L (Some In_History) i s = store (entering (selected_character i) s)"
proof -
  have k: "\<not> (case getenv_key i of None \<Rightarrow> True | Some k \<Rightarrow> k = [])"
    using assms(1) by (simp add: key_present_def split: option.splits)
  have "script L (Some In_History) i s = Interrupted (store (entering (selected_character i) s))"
    using assms(2) k by (simp add: script_def Let_def)
  then show ?thesis by (simp add: left_by_def execute_def)
qed

lemma left_by_idle:
  assumes "idle c (pt, i)" and "character s = None \<or> character s = Some c"
  shows "history (left_by L pt i s) = history s
         \<and> (character (left_by L pt i s) = None \<or> character (left_by L pt i s) = Some c)"
proof -
  from assms(1) have r: "\<not> reset_clicked i" and c: "selected_character i = c"
    and w: "\<not> prompted i \<or> \<not> key_present i \<or> pt = Some In_Sidebar \<or> pt = Some In_History"
    by (simp_all add: idle_def)
  have k: "carried c s = history s" using assms(2) by (simp add: carried_def)
  consider (early) "pt = Some In_Sidebar \<or> \<not> key_present i"
    | (hist) "key_present i" "pt = Some In_History"
    | (plain) "key_present i" "pt \<noteq> Some In_Sidebar" "\<not> prompted i"
    using w by blast
  then show ?thesis
  proof cases
    case early
    then show ?thesis using assms(2) by (simp add: left_by_early)
  next
    case hist
    then show ?thesis
      by (simp add: left_by_in_history [OF hist(1) r] history_store character_store
          carried_entering cur_character_entering c k)
  next
    case plain
    from left_by_plain [OF plain(1) r plain(2), of L s] plain(3) show ?thesis
      by (auto simp: prompted_def c k)
  qed
qed

lemma run_all_one_persona:
  assumes "\<forall>ev \<in> set evs. turn_ok c ev \<or> idle c ev"
    and "character s = None \<or> character s = Some c"
  shows "history (run_all L evs s)
           = history s @ concat (map (\<lambda>ev. exchange (snd ev)) (filter (turn_ok c) evs))"
  using assms
proof (induction evs arbitrary: s)
  case Nil
  then show ?case by (simp add: run_all_Nil)
next
  case (Cons ev evs)
  obtain pt i where ev: "ev = (pt, i)" by (cases ev) auto
  from Cons.prems(1) have r: "\<forall>ev \<in> set evs. turn_ok c ev \<or> idle c ev" by simp
  show ?case
  proof (cases "turn_ok c (pt, i)")
    case True
    from left_by_turn [OF True Cons.prems(2), of L]
    have h: "history (left_by L pt i s) = history s @ exchange i"
      and k: "character (left_by L pt i s) = None \<or> character (left_by L pt i s) = Some c"
      by simp_all
    from Cons.IH [OF r k] h True show ?thesis
      by (simp add: ev run_all_Cons)
  next
    case False
    with Cons.prems(1) have "idle c (pt, i)" by (simp add: ev)
    from left_by_idle [OF this Cons.prems(2), of L]
    have h: "history (left_by L pt i s) = history s"
      and k: "character (left_by L pt i s) = None \<or> character (left_by L pt i s) = Some c"
      by simp_all
    from Cons.IH [OF r k] h False show ?thesis
      by (simp add: ev run_all_Cons)
  qed
qed

lemma length_concat_pairs:
  "\<forall>x \<in> set xs. length x = 2 \<Longrightarrow> length (concat xs) = 2 * length xs"
  by (induction xs) simp_all

lemma roles_alternate:
  assumes "\<forall>x \<in> set xs. \<exists>u a. x = [user_msg u, assistant_msg a]"
    and "j < 2 * length xs"
  shows "role (concat xs ! j) = (if even j then ''user'' else ''assistant'')"
  using assms
proof (induction xs arbitrary: j)
  case Nil
  then show ?case by simp
next
  case (Cons x xs)
  from Cons.prems(1) obtain u a where x: "x = [user_msg u, assistant_msg a]"
    by auto
  from Cons.prems(1) have r: "\<forall>x \<in> set xs. \<exists>u a. x = [user_msg u, assistant_msg a]"
    by simp
  show ?case
  proof (cases j)
    case 0
    then show ?thesis by (simp add: x user_msg_def)
  next
    case (Suc j1)
    show ?thesis
    proof (cases j1)
      case 0
      then show ?thesis by (simp add: Suc x assistant_msg_def)
    next
      case (Suc j2)
      with \<open>j = Suc j1\<close> Cons.prems(2) have "j2 < 2 * length xs" by simp
      from Cons.IH [OF r this] show ?thesis
        by (simp add: \<open>j = Suc j1\<close> Suc x)
    qed
  qed
qed

text \<open>
  Claim C3, as amended. From a session with an empty history, in a sequence of events
  under one persona and without a reset, where every submission that reaches block 5 is
  executed without interruption and its call succeeds, and the other events are
  executions that do not reach block 5 with a prompt, the history has twice as many
  entries as there were submissions, with a user message at every even index and an
  assistant message at every odd index.
\<close>

theorem uninterrupted_turns_give_alternating_history:
  assumes "\<forall>ev \<in> set evs. turn_ok c ev \<or> idle c ev"
    and "history s = []"
    and "character s = None \<or> character s = Some c"
  shows "length (history (run_all L evs s)) = 2 * length (filter (turn_ok c) evs)
         \<and> (\<forall>j < 2 * length (filter (turn_ok c) evs).
               role (history (run_all L evs s) ! j) = (if even j then ''user'' else ''assistant''))"
proof -
  let ?xs = "map (\<lambda>ev. exchange (snd ev)) (filter (turn_ok c) evs)"
  have h: "history (run_all L evs s) = concat ?xs"
    by (simp add: run_all_one_persona [OF assms(1,3)] assms(2))
  have x: "\<forall>x \<in> set ?xs. \<exists>u a. x = [user_msg u, assistant_msg a]"
  proof
    fix x assume "x \<in> set ?xs"
    then obtain ev where e: "turn_ok c ev" "x = exchange (snd ev)" by auto
    obtain pt i where ev: "ev = (pt, i)" by (cases ev) auto
    from turn_ok_submits [of c pt i] e(1) ev obtain p where "submits i p" by blast
    from exchange_submits [OF this] e(2) ev show "\<exists>u a. x = [user_msg u, assistant_msg a]"
      by auto
  qed
  have n: "length ?xs = length (filter (turn_ok c) evs)" by simp
  have l: "length (concat ?xs) = 2 * length ?xs"
    by (rule length_concat_pairs) (simp add: exchange_def)
  have "role (concat ?xs ! j) = (if even j then ''user'' else ''assistant'')"
    if "j < 2 * length (filter (turn_ok c) evs)" for j
    using roles_alternate [OF x, of j] that by simp
  with h l n show ?thesis by simp
qed


lemma turn_ok_hello: "turn_ok Friendly_Mentor (None, hello)"
  using key_present_hello succeeds_hello
  by (simp add: turn_ok_def prompted_def) (simp add: hello_def)

lemma turn_ok_again: "turn_ok Friendly_Mentor (None, again)"
  using key_present_hello succeeds_hello
  by (simp add: turn_ok_def prompted_def again_def key_present_def) (simp add: hello_def)

lemma idle_download: "idle Friendly_Mentor (Some In_Dashboard, download)"
  by (simp add: idle_def prompted_def download_def) (simp add: hello_def)

theorem uninterrupted_turns_give_alternating_history_witness:
  "turn_ok Friendly_Mentor (None, hello) \<and> idle Friendly_Mentor (Some In_Dashboard, download)
   \<and> turn_ok Friendly_Mentor (None, again)
   \<and> history fresh = [] \<and> character fresh = None
   \<and> length (history (run_all demo_literals
                         [(None, hello), (Some In_Dashboard, download), (None, again)] fresh)) = 4
   \<and> role (history (run_all demo_literals
                       [(None, hello), (Some In_Dashboard, download), (None, again)] fresh) ! 2)
       = ''user''
   \<and> role (history (run_all demo_literals
                       [(None, hello), (Some In_Dashboard, download), (None, again)] fresh) ! 3)
       = ''assistant''"
proof -
  let ?evs = "[(None, hello), (Some In_Dashboard, download), (None, again)]"
  have n: "\<not> turn_ok Friendly_Mentor (Some In_Dashboard, download)"
    by (simp add: turn_ok_def)
  have a: "\<forall>ev \<in> set ?evs. turn_ok Friendly_Mentor ev \<or> idle Friendly_Mentor ev"
    using turn_ok_hello turn_ok_again idle_download by simp
  have g: "character fresh = None" by (simp add: fresh_def)
  have f: "length (filter (turn_ok Friendly_Mentor) ?evs) = 2"
    using turn_ok_hello turn_ok_again n by simp
  let ?h = "history (run_all demo_literals ?evs fresh)"
  note t = uninterrupted_turns_give_alternating_history
    [OF a history_fresh disjI1 [OF g], of demo_literals]
  from t have "length ?h = 2 * length (filter (turn_ok Friendly_Mentor) ?evs)"
    by (rule conjunct1)
  then have l: "length ?h = 4" unfolding f by simp
  from t have "\<forall>j < 2 * length (filter (turn_ok Friendly_Mentor) ?evs).
                role (?h ! j) = (if even j then ''user'' else ''assistant'')"
    by (rule conjunct2)
  then have r: "\<forall>j < 4. role (?h ! j) = (if even j then ''user'' else ''assistant'')"
    unfolding f by simp
  from r [THEN spec, of 2] have two: "role (?h ! 2) = ''user''" by simp
  from r [THEN spec, of 3] have three: "role (?h ! 3) = ''assistant''" by simp
  from l two three show ?thesis
    using turn_ok_hello turn_ok_again idle_download history_fresh g by simp
qed

lemma left_by_hello_late:
  "left_by demo_literals (Some (In_Stream 2)) hello fresh =
     \<lparr>messages = Some [user_msg ''Hello''], character = Some Friendly_Mentor\<rparr>"
proof -
  have e: "entering Friendly_Mentor fresh = \<lparr>cur_messages = [], cur_character = Friendly_Mentor\<rparr>"
    by (simp add: entering_def prepare_def change_character_def fresh_def)
  have r: "remote hello = Stream ([Chunk [Some (Delta (Some ''Hi''))], Chunk [Some (Delta None)]]
                            @ Chunk [Some (Delta (Some '' there''))] # [])"
    by (simp add: hello_def)
  have g: "guarded demo_literals (Some (In_Stream 2)) (remote hello) = None"
    using guarded_stream_cut
      [of "[Chunk [Some (Delta (Some ''Hi''))], Chunk [Some (Delta None)]]"
          "[Some (Delta (Some '' there''))]" demo_literals "[]"]
    by (simp add: delivered_def r numeral_2_eq_2)
  have k: "getenv_key hello = Some ''sk-test''" "\<not> reset_clicked hello"
    "prompt hello = Some ''Hello''"
    by (simp_all add: hello_def)
  have "script demo_literals (Some (In_Stream 2)) hello fresh =
          Interrupted \<lparr>messages = Some [user_msg ''Hello''], character = Some Friendly_Mentor\<rparr>"
    by (simp add: script_def Let_def k sel_hello e submit_def g store_def user_msg_def)
  then show ?thesis by (simp add: left_by_def execute_def)
qed

text \<open>
  Claim C3 as stated fails for two submissions whose streams the remote service delivers
  whole, under one persona and without a reset, when the framework interrupts the first
  execution at \<open>placeholder.markdown\<close> for the last chunk: the history has three entries
  and a user message at index 1.
\<close>

theorem interrupted_turn_breaks_alternation_counterexample:
  "submits hello ''Hello'' \<and> submits again ''Again''
   \<and> succeeds (remote hello) \<and> succeeds (remote again)
   \<and> selected_character hello = selected_character again
   \<and> history fresh = []
   \<and> length (history (run_all demo_literals [(Some (In_Stream 2), hello), (None, again)] fresh))
       = 3
   \<and> role (history (run_all demo_literals [(Some (In_Stream 2), hello), (None, again)] fresh) ! 1)
       = ''user''"
proof -
  let ?s = "\<lparr>messages = Some [user_msg ''Hello''], character = Some Friendly_Mentor\<rparr>"
  have s: "selected_character again = Friendly_Mentor" "remote again = remote hello"
    by (simp_all add: again_def hello_def)
  have c: "cur_messages (entering Friendly_Mentor ?s) = [user_msg ''Hello'']"
    by (simp add: cur_messages_entering history_def)
  have a: "history (after demo_literals again ?s) =
             [user_msg ''Hello'', user_msg ''Again'', assistant_msg ''Hi there'']"
    by (simp add: after_submits [OF submits_again] history_store s c attempt_hello)
  have "run_all demo_literals [(Some (In_Stream 2), hello), (None, again)] fresh
          = after demo_literals again ?s"
    by (simp add: run_all_Cons run_all_Nil left_by_hello_late after_def)
  with a show ?thesis
    by (simp add: submits_hello submits_again succeeds_hello s sel_hello history_fresh
        user_msg_def)
qed

subsection \<open>The lines of the export\<close>

lemma lines_of_nonempty: "lines_of x \<noteq> []"
  by (induction x) (auto split: list.splits)

lemma lines_of_plain: "CHR 0x0A \<notin> set x \<Longrightarrow> lines_of x = [x]"
  by (induction x) auto

lemma lines_of_break:
  "CHR 0x0A \<notin> set x \<Longrightarrow> lines_of (x @ CHR 0x0A # rest) = x # lines_of rest"
proof (induction x)
  case Nil
  show ?case by simp
next
  case (Cons c x)
  then show ?case by auto
qed

lemma lines_of_join:
  assumes "xs \<noteq> []" and "\<forall>x \<in> set xs. CHR 0x0A \<notin> set x"
  shows "lines_of (join [CHR 0x0A, CHR 0x0A] xs) = blank_between xs"
  using assms
proof (induction xs rule: list_nonempty_induct)
  case (single x)
  then show ?case by (simp add: lines_of_plain)
next
  case (cons x xs)
  from cons.hyps obtain y ys where xs: "xs = y # ys" by (cases xs) auto
  from cons.prems have n: "CHR 0x0A \<notin> set x" and r: "\<forall>x \<in> set xs. CHR 0x0A \<notin> set x"
    by simp_all
  have "lines_of (join [CHR 0x0A, CHR 0x0A] (x # xs))
          = lines_of (x @ CHR 0x0A # (CHR 0x0A # join [CHR 0x0A, CHR 0x0A] xs))"
    by (simp add: xs)
  also have "\<dots> = x # lines_of (CHR 0x0A # join [CHR 0x0A, CHR 0x0A] xs)"
    by (rule lines_of_break [OF n])
  also have "\<dots> = x # [] # lines_of (join [CHR 0x0A, CHR 0x0A] xs)"
    by simp
  finally show ?case using cons.IH [OF r] by (simp add: xs)
qed

lemma export_line_plain: "newline_free m \<Longrightarrow> CHR 0x0A \<notin> set (export_line m)"
  by (simp add: newline_free_def export_line_def)

lemma lines_of_export_data:
  assumes "ms \<noteq> []" and "\<forall>m \<in> set ms. newline_free m"
  shows "lines_of (export_data ms) = blank_between (map export_line ms)"
  using assms lines_of_join [of "map export_line ms"]
  by (simp add: export_data_def export_line_plain)

lemma join_map_entries:
  "ms \<noteq> [] \<Longrightarrow>
   join sep (map f ms) = concat (map (\<lambda>m. f m @ sep) (butlast ms)) @ f (last ms)"
proof (induction ms rule: list_nonempty_induct)
  case (single m)
  show ?case by simp
next
  case (cons m ms)
  from cons.hyps obtain m' ms' where ms: "ms = m' # ms'" by (cases ms) auto
  have "join sep (map f (m # ms)) = f m @ sep @ join sep (map f ms)"
    by (simp add: ms)
  with cons.IH cons.hyps show ?case by simp
qed

lemma export_data_entries:
  assumes "ms \<noteq> []"
  shows "export_data ms =
           concat (map (\<lambda>m. ''**'' @ role m @ ''**: '' @ content m @ [CHR 0x0A, CHR 0x0A])
                    (butlast ms))
           @ ''**'' @ role (last ms) @ ''**: '' @ content (last ms)"
  using join_map_entries [OF assms, of "[CHR 0x0A, CHR 0x0A]" export_line]
  by (simp add: export_data_def export_line_def)

text \<open>
  Claim C6, as amended. Whenever the retained history is not empty the export text is, for
  every retained message in order and whatever the length of the history, the entry
  \<open>**role**: content\<close> with the content copied as it is, each entry but the last followed
  by two newline characters. When no retained message holds a newline character, the
  lines of the export are exactly these entries, one line each, with one empty line
  between two entries. An event that only re-executes the script (no prompt, no reset, the
  same persona) produces the export and leaves the history and the persona as they were.
\<close>

theorem export_lists_every_retained_message:
  "(shown_by L i s = Some out \<and> history (after L i s) \<noteq> [] \<longrightarrow>
      export out =
        Some (concat (map (\<lambda>m. ''**'' @ role m @ ''**: '' @ content m @ [CHR 0x0A, CHR 0x0A])
                       (butlast (history (after L i s))))
              @ ''**'' @ role (last (history (after L i s))) @ ''**: ''
              @ content (last (history (after L i s)))))
   \<and> (shown_by L i s = Some out \<and> history (after L i s) \<noteq> []
        \<and> (\<forall>m \<in> set (history (after L i s)). newline_free m) \<longrightarrow>
          (\<exists>body. export out = Some body
             \<and> lines_of body =
                 blank_between (map (\<lambda>m. ''**'' @ role m @ ''**: '' @ content m)
                                  (history (after L i s)))))
   \<and> (key_present i \<and> \<not> reset_clicked i \<and> prompt i = None
        \<and> character s = Some (selected_character i) \<longrightarrow>
          history (after L i s) = history s \<and> character (after L i s) = character s)"
proof (intro conjI impI)
  assume a: "shown_by L i s = Some out \<and> history (after L i s) \<noteq> []"
  then have "export out = export_button (history (after L i s))"
    using run_finished_export [OF shown_by_Some, of L i s out] by simp
  with a show "export out =
        Some (concat (map (\<lambda>m. ''**'' @ role m @ ''**: '' @ content m @ [CHR 0x0A, CHR 0x0A])
                       (butlast (history (after L i s))))
              @ ''**'' @ role (last (history (after L i s))) @ ''**: ''
              @ content (last (history (after L i s))))"
    by (simp add: export_button_def export_data_entries)
next
  assume a: "shown_by L i s = Some out \<and> history (after L i s) \<noteq> []
        \<and> (\<forall>m \<in> set (history (after L i s)). newline_free m)"
  then have e: "export out = Some (export_data (history (after L i s)))"
    using run_finished_export [OF shown_by_Some, of L i s out] by (simp add: export_button_def)
  have m: "map export_line ms = map (\<lambda>m. ''**'' @ role m @ ''**: '' @ content m) ms" for ms
    by (simp add: export_line_def)
  from a have "lines_of (export_data (history (after L i s)))
                 = blank_between (map export_line (history (after L i s)))"
    by (simp add: lines_of_export_data)
  with e show "\<exists>body. export out = Some body
             \<and> lines_of body =
                 blank_between (map (\<lambda>m. ''**'' @ role m @ ''**: '' @ content m)
                                  (history (after L i s)))"
    by (simp add: m)
next
  assume b: "key_present i \<and> \<not> reset_clicked i \<and> prompt i = None
        \<and> character s = Some (selected_character i)"
  then have "after L i s = store (entering (selected_character i) s)"
    by (simp add: after_run run_quiet script_quiet)
  moreover have "cur_messages (entering (selected_character i) s) = history s"
    using b by (simp add: cur_messages_entering)
  ultimately show "history (after L i s) = history s" "character (after L i s) = character s"
    using b by (simp_all add: history_store character_store cur_character_entering)
qed

theorem export_lists_every_retained_message_witness:
  "key_present download \<and> \<not> reset_clicked download \<and> prompt download = None
   \<and> character one_turn = Some (selected_character download)
   \<and> history one_turn \<noteq> []
   \<and> newline_free \<lparr>role = ''user'', content = ''Hello''\<rparr>
   \<and> newline_free \<lparr>role = ''assistant'', content = ''Hi there''\<rparr>
   \<and> (\<exists>out. shown_by demo_literals download one_turn = Some out
         \<and> export out =
             Some (''**user**: Hello'' @ [CHR 0x0A, CHR 0x0A] @ ''**assistant**: Hi there'')
         \<and> lines_of (''**user**: Hello'' @ [CHR 0x0A, CHR 0x0A] @ ''**assistant**: Hi there'')
             = [''**user**: Hello'', [], ''**assistant**: Hi there''])
   \<and> history (after demo_literals download one_turn) = history one_turn"
proof -
  have k: "key_present download" by (simp add: download_def key_present_def hello_def)
  have r: "\<not> reset_clicked download" by (simp add: download_def hello_def)
  have p: "prompt download = None" by (simp add: download_def)
  have c: "character one_turn = Some (selected_character download)"
    by (simp add: download_def hello_def one_turn_def)
  have n: "history one_turn \<noteq> []" by (simp add: history_one_turn)
  have f: "newline_free \<lparr>role = ''user'', content = ''Hello''\<rparr>"
    "newline_free \<lparr>role = ''assistant'', content = ''Hi there''\<rparr>"
    by (simp_all add: newline_free_def)
  then have g: "\<forall>m \<in> set (history one_turn). newline_free m"
    by (simp add: history_one_turn user_msg_def assistant_msg_def)
  obtain out where o: "shown_by demo_literals download one_turn = Some out"
    by (simp add: shown_by_def run_quiet [OF k r] script_quiet [OF k r] p)
  note t = export_lists_every_retained_message [of demo_literals download one_turn out]
  from t k r p c have h: "history (after demo_literals download one_turn) = history one_turn"
    by blast
  with t o n have "export out =
        Some (concat (map (\<lambda>m. ''**'' @ role m @ ''**: '' @ content m @ [CHR 0x0A, CHR 0x0A])
                       (butlast (history one_turn)))
              @ ''**'' @ role (last (history one_turn)) @ ''**: ''
              @ content (last (history one_turn)))"
    by simp
  then have e: "export out =
             Some (''**user**: Hello'' @ [CHR 0x0A, CHR 0x0A] @ ''**assistant**: Hi there'')"
    by (simp add: history_one_turn user_msg_def assistant_msg_def)
  have n2: "history (after demo_literals download one_turn) \<noteq> []"
    and g2: "\<forall>m \<in> set (history (after demo_literals download one_turn)). newline_free m"
    using h n g by simp_all
  from t o n2 g2 obtain body where x: "export out = Some body"
    "lines_of body =
       blank_between (map (\<lambda>m. ''**'' @ role m @ ''**: '' @ content m)
                        (history (after demo_literals download one_turn)))"
    by blast
  from x(1) e have "body = ''**user**: Hello'' @ [CHR 0x0A, CHR 0x0A] @ ''**assistant**: Hi there''"
    by simp
  with x(2) have l: "lines_of (''**user**: Hello'' @ [CHR 0x0A, CHR 0x0A] @ ''**assistant**: Hi there'')
             = [''**user**: Hello'', [], ''**assistant**: Hi there'']"
    by (simp add: h history_one_turn user_msg_def assistant_msg_def)
  from k r p c n f o e l h show ?thesis by blast
qed

lemma submits_two_lines: "submits two_lines ''Hello''"
  by (simp add: submits_def key_present_def two_lines_def hello_def)

text \<open>
  Claim C6 as stated fails when a reply holds a newline character: the history has two
  messages and the export has three lines that are not empty, the last of them not of the
  form \<open>**role**: content\<close>.
\<close>

theorem export_line_per_message_counterexample:
  "history (after demo_literals two_lines fresh) =
     [\<lparr>role = ''user'', content = ''Hello''\<rparr>,
      \<lparr>role = ''assistant'', content = ''Hi'' @ [CHR 0x0A] @ ''there''\<rparr>]
   \<and> map_option export (shown_by demo_literals two_lines fresh) =
       Some (Some (''**user**: Hello'' @ [CHR 0x0A, CHR 0x0A] @ ''**assistant**: Hi''
                   @ [CHR 0x0A] @ ''there''))
   \<and> lines_of (''**user**: Hello'' @ [CHR 0x0A, CHR 0x0A] @ ''**assistant**: Hi''
                @ [CHR 0x0A] @ ''there'')
       = [''**user**: Hello'', [], ''**assistant**: Hi'', ''there'']
   \<and> length (history (after demo_literals two_lines fresh)) = 2"
proof -
  have a: "attempt (remote two_lines)
             = ((''Hi'' @ [CHR 0x0A] @ ''there'', Markdown (''Hi'' @ [CHR 0x0A] @ ''there'')), None)"
    by (simp add: two_lines_def attempt_Stream consume_Chunk consume_Nil)
  have s: "selected_character two_lines = Friendly_Mentor"
    by (simp add: two_lines_def hello_def)
  have h: "history (after demo_literals two_lines fresh) =
     [\<lparr>role = ''user'', content = ''Hello''\<rparr>,
      \<lparr>role = ''assistant'', content = ''Hi'' @ [CHR 0x0A] @ ''there''\<rparr>]"
    by (simp add: after_submits [OF submits_two_lines] history_store a s
        carried_entering carried_fresh user_msg_def assistant_msg_def)
  have e: "map_option export (shown_by demo_literals two_lines fresh) =
       Some (Some (''**user**: Hello'' @ [CHR 0x0A, CHR 0x0A] @ ''**assistant**: Hi''
                   @ [CHR 0x0A] @ ''there''))"
    by (simp add: shown_by_def run_submits [OF submits_two_lines]
        script_submits [OF submits_two_lines] a s carried_entering carried_fresh
        export_data_def export_line_def user_msg_def assistant_msg_def)
  have l: "lines_of (''**user**: Hello'' @ [CHR 0x0A, CHR 0x0A] @ ''**assistant**: Hi''
                @ [CHR 0x0A] @ ''there'')
       = [''**user**: Hello'', [], ''**assistant**: Hi'', ''there'']"
    by simp
  from h e l show ?thesis by simp
qed

end
